theory Spec2Isabelle
  imports Complex_Main
begin

section \<open>Python string primitives used by the field mappers\<close>

text \<open>
  Python strings are modelled as \<^typ>\<open>string\<close>, read as sequences of code points below 256.
  An optional value (\<open>None\<close> or a string) is a \<^typ>\<open>string option\<close>; Python's truthiness
  test \<open>if not s\<close> holds for \<open>None\<close> and for the empty string.
\<close>

definition truthy :: "string option \<Rightarrow> bool" where
  "truthy s = (case s of None \<Rightarrow> False | Some v \<Rightarrow> v \<noteq> [])"

text \<open>\<open>x or None\<close> on an optional string: a falsy value becomes \<open>None\<close>.\<close>

definition or_none :: "string option \<Rightarrow> string option" where
  "or_none s = (if truthy s then s else None)"

text \<open>\<open>x or d\<close> on an optional string with a string default.\<close>

definition or_default :: "string option \<Rightarrow> string \<Rightarrow> string" where
  "or_default s d = (case s of None \<Rightarrow> d | Some v \<Rightarrow> if v = [] then d else v)"

definition is_ascii_digit :: "char \<Rightarrow> bool" where
  "is_ascii_digit c = (48 \<le> (of_char c :: nat) \<and> (of_char c :: nat) \<le> 57)"

text \<open>
  \<open>str.isdigit\<close> on one character: below 256 these are the ASCII digits and the
  superscripts U+00B2, U+00B3, U+00B9.
\<close>

definition py_isdigit_char :: "char \<Rightarrow> bool" where
  "py_isdigit_char c = (is_ascii_digit c \<or> (of_char c :: nat) \<in> {178, 179, 185})"

definition py_isdigit :: "string \<Rightarrow> bool" where
  "py_isdigit s = (s \<noteq> [] \<and> list_all py_isdigit_char s)"

text \<open>\<open>str.isspace\<close> on one character, for code points below 256.\<close>

definition py_isspace_char :: "char \<Rightarrow> bool" where
  "py_isspace_char c =
     (let n = (of_char c :: nat)
      in (9 \<le> n \<and> n \<le> 13) \<or> (28 \<le> n \<and> n \<le> 32) \<or> n = 133 \<or> n = 160)"

definition py_strip :: "string \<Rightarrow> string" where
  "py_strip s = rev (dropWhile py_isspace_char (rev (dropWhile py_isspace_char s)))"

text \<open>\<open>s.replace(c, "")\<close> for a one-character \<open>c\<close>.\<close>

definition remove_char :: "char \<Rightarrow> string \<Rightarrow> string" where
  "remove_char c s = filter (\<lambda>x. x \<noteq> c) s"

definition startswith :: "string \<Rightarrow> string \<Rightarrow> bool" where
  "startswith s p = (take (length p) s = p)"

text \<open>\<open>s.split(c)\<close> for a one-character separator: always at least one part.\<close>

fun split_on :: "char \<Rightarrow> string \<Rightarrow> string list" where
  "split_on c [] = [[]]"
| "split_on c (x # xs) =
     (if x = c then [] # split_on c xs
      else (case split_on c xs of
              [] \<Rightarrow> [[x]]
            | p # ps \<Rightarrow> (x # p) # ps))"

text \<open>
  \<open>s.zfill(width)\<close>: left-pad with zeros up to \<open>width\<close>; a leading sign stays in front
  of the padding.
\<close>

definition zfill :: "string \<Rightarrow> nat \<Rightarrow> string" where
  "zfill s width =
     (if length s \<ge> width then s
      else (case s of
              [] \<Rightarrow> replicate width (CHR ''0'')
            | c # rest \<Rightarrow>
                if c = CHR ''+'' \<or> c = CHR ''-''
                then c # replicate (width - length s) (CHR ''0'') @ rest
                else replicate (width - length s) (CHR ''0'') @ s))"

section \<open>Phone normalisation\<close>

text \<open>
  \<open>ephysio/utils.py\<close>, \<open>normalize_phone\<close>: the substitution \<open>re.sub(r"[^\d+]", "", phone)\<close>
  keeps the decimal digits and the plus sign.
\<close>

definition normalize_phone :: "string option \<Rightarrow> string option" where
  "normalize_phone phone =
     (if \<not> truthy phone then None
      else
        let p0 = filter (\<lambda>c. is_ascii_digit c \<or> c = CHR ''+'') (the phone);
            p1 = (if startswith p0 ''+'' then drop 1 p0 else p0);
            p2 = (if startswith p1 ''41'' then drop 2 p1 else p1);
            p3 = (if \<not> startswith p2 ''0'' then ''0'' @ p2 else p2)
        in Some p3)"

text \<open>\<open>ghl_accounts/services/contacts.py\<close>, \<open>validate_and_clean_phone\<close>.\<close>

definition validate_and_clean_phone :: "string option \<Rightarrow> string option" where
  "validate_and_clean_phone phone =
     (if \<not> truthy phone then None
      else
        let p = remove_char (CHR '')'')
                  (remove_char (CHR ''('')
                    (remove_char (CHR ''-'')
                      (remove_char (CHR '' '') (py_strip (the phone)))))
        in if startswith p ''+'' then
             (if length p > 1 \<and> py_isdigit (remove_char (CHR '' '') (drop 1 p))
              then Some p else None)
           else if startswith p ''00'' then Some (''+'' @ drop 2 p)
           else if startswith p ''41'' \<and> length p \<ge> 10 then Some (''+'' @ p)
           else if startswith p ''0'' \<and> length p \<ge> 10 then Some (''+41'' @ drop 1 p)
           else if py_isdigit p \<and> length p \<ge> 10 then Some p
           else None)"


section \<open>Sync-state records\<close>

text \<open>
  \<open>ghl_accounts/models.py\<close>. A model instance carries its primary key \<open>pk\<close> (Django's
  \<open>id\<close>), which is \<open>None\<close> until the row has been saved. Nullable character fields are
  \<^typ>\<open>string option\<close>.
\<close>

record contact_sync =
  pk :: "nat option"
  ghl_contact_id :: "string option"
  ephysio_patient_id :: "string option"
  email :: "string option"
  phone :: "string option"
  first_name :: "string option"
  last_name :: "string option"
  salutation :: "string option"
  street :: "string option"
  zip_f :: "string option"
  city :: "string option"
  birth_date :: "string option"
  sex :: "bool option"
  source :: string

section \<open>CRM contact payload\<close>

text \<open>
  The birth-date conversion inside \<open>build_ghl_contact_payload\<close>: the stored string is split
  at the dots, and exactly three parts are reassembled as year, month, day. Splitting a
  string raises nothing, so the \<open>except\<close> branch of the source is never taken.
\<close>

definition date_of_birth :: "string option \<Rightarrow> string option" where
  "date_of_birth bd =
     (if truthy bd then
        (case split_on (CHR ''.'') (the bd) of
           [day, month, year] \<Rightarrow> Some (year @ ''-'' @ zfill month 2 @ ''-'' @ zfill day 2)
         | _ \<Rightarrow> None)
      else None)"

text \<open>
  \<open>build_ghl_contact_payload\<close>. The payload is a dictionary with string values, kept as an
  association list in insertion order. \<open>payload_items\<close> is the dictionary as it stands
  before the final comprehension, which drops the keys whose value is \<open>None\<close>.
\<close>

definition payload_items :: "contact_sync \<Rightarrow> (string \<times> string option) list" where
  "payload_items contact_sync =
     (let first_name' = or_default (first_name contact_sync) [];
          last_name' = or_default (last_name contact_sync) [];
          full_name = or_default (Some (py_strip (first_name' @ '' '' @ last_name'))) ''Unknown'';
          dob = date_of_birth (birth_date contact_sync);
          phone' = (if truthy (phone contact_sync)
                    then validate_and_clean_phone (phone contact_sync) else None);
          address1 = or_none (street contact_sync);
          city' = or_none (city contact_sync);
          postal_code = or_none (zip_f contact_sync);
          payload = [(''firstName'', Some first_name'),
                     (''lastName'', Some last_name'),
                     (''name'', Some full_name),
                     (''email'', or_none (email contact_sync)),
                     (''address1'', address1),
                     (''city'', city'),
                     (''postalCode'', postal_code)];
          payload1 = (if truthy phone' then payload @ [(''phone'', phone')] else payload);
          payload2 = (if truthy dob then payload1 @ [(''dateOfBirth'', dob)] else payload1)
      in payload2)"

definition drop_none :: "(string \<times> string option) list \<Rightarrow> (string \<times> string) list" where
  "drop_none items = List.map_filter (\<lambda>(k, v). map_option (Pair k) v) items"

definition build_ghl_contact_payload :: "contact_sync \<Rightarrow> (string \<times> string) list" where
  "build_ghl_contact_payload contact_sync = drop_none (payload_items contact_sync)"

text \<open>The shape \<open>DD.MM.YYYY\<close>: two digits, a dot, two digits, a dot, four digits.\<close>

definition is_ddmmyyyy :: "string \<Rightarrow> bool" where
  "is_ddmmyyyy s =
     (length s = 10 \<and> s ! 2 = CHR ''.'' \<and> s ! 5 = CHR ''.''
      \<and> list_all is_ascii_digit (take 2 s)
      \<and> list_all is_ascii_digit (take 2 (drop 3 s))
      \<and> list_all is_ascii_digit (drop 6 s))"

text \<open>An instance with every field empty, for concrete inputs.\<close>

definition blank_contact :: contact_sync where
  "blank_contact = \<lparr> pk = None, ghl_contact_id = None, ephysio_patient_id = None,
     email = None, phone = None, first_name = None, last_name = None, salutation = None,
     street = None, zip_f = None, city = None, birth_date = None, sex = None,
     source = [] \<rparr>"

section \<open>Rate limiter of the dispatcher commands\<close>

text \<open>
  \<open>RateLimiter\<close> in \<open>sync_contacts_to_ghl.py\<close> and \<open>sync_appointments_to_ghl.py\<close> (the
  two classes are identical). Time is a logical clock with rational values:
  \<open>time.time()\<close> reads it and \<open>time.sleep(d)\<close> advances it by \<open>d\<close>. The lock makes
  each call of \<open>wait\<close> atomic, so a run with any number of workers is a sequence of calls.
\<close>

record rate_limiter =
  max_calls :: nat
  min_interval :: rat
  last_called :: "rat list"
  index :: nat

datatype py_exn = ZeroDivisionError | IndexError

text \<open>The constructor: \<open>1.0 / max_calls_per_second\<close> raises for a rate of zero.\<close>

definition RateLimiter :: "nat \<Rightarrow> py_exn + rate_limiter" where
  "RateLimiter max_calls_per_second =
     (if max_calls_per_second = 0 then Inl ZeroDivisionError
      else Inr \<lparr> max_calls = max_calls_per_second,
                 min_interval = 1 / of_nat max_calls_per_second,
                 last_called = replicate max_calls_per_second 0,
                 index = 0 \<rparr>)"

text \<open>
  \<open>wait\<close>, entered when the clock reads \<open>now\<close>: returns the clock at the moment the
  slot is stamped (the admission timestamp) and the updated limiter.
\<close>

definition wait :: "rat \<Rightarrow> rate_limiter \<Rightarrow> py_exn + (rat \<times> rate_limiter)" where
  "wait now self =
     (if index self \<ge> length (last_called self) then Inl IndexError
      else
        let elapsed = now - last_called self ! index self;
            stamped = (if elapsed < min_interval self
                       then now + (min_interval self - elapsed) else now)
        in Inr (stamped,
                self\<lparr> last_called := (last_called self)[index self := stamped],
                      index := (index self + 1) mod max_calls self \<rparr>))"

text \<open>
  \<open>n\<close> successive admissions with no time passing between one call returning and the
  next one entering (workers that are always ready): the list of admission timestamps.
\<close>

fun admissions :: "nat \<Rightarrow> rat \<Rightarrow> rate_limiter \<Rightarrow> rat list" where
  "admissions 0 now self = []"
| "admissions (Suc n) now self =
     (case wait now self of
        Inl e \<Rightarrow> []
      | Inr (stamped, self') \<Rightarrow> stamped # admissions n stamped self')"

definition dispatch_timestamps :: "nat \<Rightarrow> nat \<Rightarrow> rat \<Rightarrow> rat list" where
  "dispatch_timestamps rate n start =
     (case RateLimiter rate of Inl e \<Rightarrow> [] | Inr rl \<Rightarrow> admissions n start rl)"

text \<open>The clock and the limiter after \<open>n\<close> such admissions.\<close>

fun after :: "nat \<Rightarrow> rat \<times> rate_limiter \<Rightarrow> rat \<times> rate_limiter" where
  "after 0 st = st"
| "after (Suc n) (now, self) =
     (case wait now self of
        Inl e \<Rightarrow> (now, self)
      | Inr (stamped, self') \<Rightarrow> after n (stamped, self'))"

text \<open>
  The limiter of rate \<open>R\<close> part-way through a round: the first \<open>k\<close> slots already stamped
  \<open>new\<close>, the remaining ones still holding \<open>old\<close>, and the index at slot \<open>k\<close>.
\<close>

definition ring :: "nat \<Rightarrow> nat \<Rightarrow> rat \<Rightarrow> rat \<Rightarrow> rate_limiter" where
  "ring R k old new =
     \<lparr> max_calls = R, min_interval = 1 / of_nat R,
       last_called = replicate k new @ replicate (R - k) old, index = k mod R \<rparr>"

section \<open>CRM credentials and outbound writes\<close>

text \<open>\<open>GHLAuthCredentials\<close> and \<open>AppointmentSync\<close> of \<open>ghl_accounts/models.py\<close>.\<close>

record ghl_auth_credentials =
  user_id :: "string option"
  access_token :: string
  refresh_token :: string
  expires_in :: int
  scope :: "string option"
  user_type :: "string option"
  company_id :: "string option"
  location_id :: "string option"

text \<open>Date-times are kept as epoch milliseconds.\<close>

type_synonym datetime = int

record appointment_sync =
  a_pk :: "nat option"
  ghl_appointment_id :: "string option"
  a_ghl_contact_id :: "string option"
  a_ephysio_patient_id :: string
  ephysio_appointment_id :: "string option"
  start_time :: datetime
  end_time :: datetime
  status :: "string option"
  event_type_id :: "int option"
  a_user_id :: "int option"
  client_id :: "int option"
  admin_info_id :: "int option"
  a_source :: string

text \<open>
  \<open>get_ghl_auth\<close>: the credentials table is a list of rows in primary-key order, and
  \<open>objects.first()\<close> is its head.
\<close>

definition get_ghl_auth :: "ghl_auth_credentials list \<Rightarrow> string option \<times> string option" where
  "get_ghl_auth creds =
     (case creds of
        [] \<Rightarrow> (None, None)
      | auth # _ \<Rightarrow>
          if \<not> truthy (location_id auth) then (None, None)
          else (Some (access_token auth), location_id auth))"

text \<open>
  JSON values, and what one HTTP call can produce: a response (status code, body text,
  and the body parsed by \<open>response.json()\<close>, which either raises with a message or yields
  a JSON object), or an exception of \<open>requests\<close>.
\<close>

datatype json = JNull | JBool bool | JNum int | JStr string | JArr "json list"
  | JObj "(string \<times> json) list"

record http_response =
  status_code :: nat
  text_body :: string
  json_body :: "string + (string \<times> json) list"

datatype http_outcome =
    Response http_response
  | Timeout string
  | ConnectionError string
  | OtherException string

text \<open>
  What a write function returns: \<open>Success d\<close> is the dictionary \<open>d\<close> taken from a 200/201
  response, \<open>Failure e c\<close> is the dictionary \<open>{"error": e}\<close>, with \<open>"status_code": c\<close> when
  \<open>c\<close> is given.
\<close>

datatype ghl_result = Success "(string \<times> json) list" | Failure json "nat option"

definition MAX_RETRIES :: nat where "MAX_RETRIES = 3"
definition RETRY_DELAY :: nat where "RETRY_DELAY = 2"

text \<open>The 200/201 branch shared by the write functions, for the key \<open>k\<close> they look for.\<close>

definition wrap_result :: "string \<Rightarrow> http_response \<Rightarrow> ghl_result" where
  "wrap_result k r =
     (case json_body r of
        Inl e \<Rightarrow> Failure (JStr e) None
      | Inr result \<Rightarrow>
          if k \<in> fst ` set result then Success result
          else if ''id'' \<in> fst ` set result then Success [(k, JObj result)]
          else Success result)"

text \<open>
  The retry loop of \<open>create_ghl_appointment\<close>, \<open>for attempt in range(MAX_RETRIES)\<close>, with
  \<open>remaining\<close> iterations left from \<open>attempt\<close> on. \<open>post attempt\<close> is what the HTTP call of
  that iteration produces. The loop returns the result, the number of HTTP calls made and
  the list of \<open>time.sleep\<close> arguments, in seconds.
\<close>

fun attempt_loop :: "(nat \<Rightarrow> http_outcome) \<Rightarrow> nat \<Rightarrow> nat \<Rightarrow> ghl_result \<times> nat \<times> nat list" where
  "attempt_loop post 0 attempt = (Failure (JStr ''Failed after all retry attempts'') None, 0, [])"
| "attempt_loop post (Suc remaining) attempt =
     (case post attempt of
        Response r \<Rightarrow>
          if status_code r = 200 \<or> status_code r = 201 then (wrap_result ''appointment'' r, 1, [])
          else if status_code r \<ge> 500 \<and> attempt < MAX_RETRIES - 1 then
            (case attempt_loop post remaining (attempt + 1) of
               (res, n, sleeps) \<Rightarrow> (res, Suc n, RETRY_DELAY * (attempt + 1) # sleeps))
          else
            (Failure (case json_body r of
                        Inl e \<Rightarrow> JStr (if length (text_body r) > 200
                                         then take 200 (text_body r) else text_body r)
                      | Inr error_data \<Rightarrow>
                          (case map_of error_data ''message'' of
                             None \<Rightarrow> JStr (take 200 (text_body r))
                           | Some m \<Rightarrow> m))
               (Some (status_code r)), 1, [])
      | Timeout e \<Rightarrow>
          if attempt < MAX_RETRIES - 1 then
            (case attempt_loop post remaining (attempt + 1) of
               (res, n, sleeps) \<Rightarrow> (res, Suc n, RETRY_DELAY * (attempt + 1) # sleeps))
          else (Failure (JStr (''Network error: '' @ take 100 e)) None, 1, [])
      | ConnectionError e \<Rightarrow>
          if attempt < MAX_RETRIES - 1 then
            (case attempt_loop post remaining (attempt + 1) of
               (res, n, sleeps) \<Rightarrow> (res, Suc n, RETRY_DELAY * (attempt + 1) # sleeps))
          else (Failure (JStr (''Network error: '' @ take 100 e)) None, 1, [])
      | OtherException e \<Rightarrow> (Failure (JStr e) None, 1, []))"

text \<open>\<open>create_ghl_appointment\<close> of \<open>ghl_accounts/services/appointments.py\<close>.\<close>

definition create_ghl_appointment ::
  "ghl_auth_credentials list \<Rightarrow> appointment_sync \<Rightarrow> (nat \<Rightarrow> http_outcome)
     \<Rightarrow> ghl_result \<times> nat \<times> nat list" where
  "create_ghl_appointment creds appt_sync post =
     (case get_ghl_auth creds of (token, location) \<Rightarrow>
        if \<not> truthy token \<or> \<not> truthy location
        then (Failure (JStr ''Authentication not available'') None, 0, [])
        else if \<not> truthy (a_ghl_contact_id appt_sync)
        then (Failure (JStr ''Missing ghl_contact_id'') None, 0, [])
        else attempt_loop post MAX_RETRIES 0)"

text \<open>
  \<open>create_ghl_contact\<close> of \<open>ghl_accounts/services/contacts.py\<close>: one HTTP call, no loop.
  The result comes with the number of HTTP calls made.
\<close>

definition create_ghl_contact ::
  "ghl_auth_credentials list \<Rightarrow> (nat \<Rightarrow> http_outcome) \<Rightarrow> ghl_result \<times> nat" where
  "create_ghl_contact creds post =
     (case get_ghl_auth creds of (token, location) \<Rightarrow>
        if \<not> truthy token \<or> \<not> truthy location
        then (Failure (JStr ''Authentication not available'') None, 0)
        else
          (case post 0 of
             Response r \<Rightarrow>
               if status_code r = 200 \<or> status_code r = 201 then (wrap_result ''contact'' r, 1)
               else
                 (Failure (case json_body r of
                             Inl e \<Rightarrow> JStr (text_body r)
                           | Inr error_data \<Rightarrow>
                               (case map_of error_data ''message'' of
                                  None \<Rightarrow> JStr (text_body r)
                                | Some m \<Rightarrow> m))
                    (Some (status_code r)), 1)
           | Timeout e \<Rightarrow> (Failure (JStr e) None, 1)
           | ConnectionError e \<Rightarrow> (Failure (JStr e) None, 1)
           | OtherException e \<Rightarrow> (Failure (JStr e) None, 1)))"


text \<open>Concrete inputs: one stored credential row, a linked appointment, fixed responses.\<close>

definition creds0 :: "ghl_auth_credentials list" where
  "creds0 = [\<lparr> user_id = None, access_token = ''tok'', refresh_token = ''ref'',
              expires_in = 86400, scope = None, user_type = None, company_id = None,
              location_id = Some ''loc'' \<rparr>]"

definition appt0 :: appointment_sync where
  "appt0 = \<lparr> a_pk = Some 1, ghl_appointment_id = None, a_ghl_contact_id = Some ''abc'',
             a_ephysio_patient_id = ''42'', ephysio_appointment_id = Some ''7'',
             start_time = 1758911400000, end_time = 1758915000000, status = Some ''5'',
             event_type_id = None, a_user_id = None, client_id = None, admin_info_id = None,
             a_source = ''ephysio'' \<rparr>"





section \<open>CRM token refresh\<close>

text \<open>Decimal rendering of a number, as an f-string does.\<close>

fun str_nat :: "nat \<Rightarrow> string" where
  "str_nat n = (if n < 10 then [char_of (48 + n)]
                else str_nat (n div 10) @ [char_of (48 + n mod 10)])"

text \<open>
  A member of the token endpoint's JSON answer: missing, \<open>null\<close>, or a value.
  \<open>d.get(k)\<close> yields \<open>None\<close> for the first two; \<open>d.get(k, default)\<close> yields the default
  only for a missing key.
\<close>

datatype 'a jfield = Absent | Null | Val 'a

definition jget :: "'a jfield \<Rightarrow> 'a option" where
  "jget f = (case f of Absent \<Rightarrow> None | Null \<Rightarrow> None | Val v \<Rightarrow> Some v)"

definition jget_default :: "'a jfield \<Rightarrow> 'a \<Rightarrow> 'a option" where
  "jget_default f d = (case f of Absent \<Rightarrow> Some d | Null \<Rightarrow> None | Val v \<Rightarrow> Some v)"

record token_response =
  r_access_token :: "string jfield"
  r_refresh_token :: "string jfield"
  r_expires_in :: "int jfield"
  r_scope :: "string jfield"
  r_userType :: "string jfield"
  r_companyId :: "string jfield"
  r_userId :: "string jfield"
  r_locationId :: "string jfield"

text \<open>
  What the POST to the token URL produces: a response with status, text and parsed body
  (\<open>response.json()\<close> raising is \<open>Inl\<close>; its exception is a \<open>RequestException\<close>), a
  \<open>RequestException\<close>, or another exception.
\<close>

datatype token_outcome =
    TokenResponse nat string "string + token_response"
  | RequestException string
  | UnexpectedException string

text \<open>
  \<open>refresh_ghl_token\<close> of \<open>ghl_accounts/services/contacts.py\<close>, on the credentials table.
  \<open>auth.save()\<close> is the only write. It raises when a column that is not nullable
  (\<open>access_token\<close>, \<open>refresh_token\<close>, \<open>expires_in\<close>) would receive \<open>None\<close>, and
  \<open>save_error\<close> stands for any other failure of the storage engine; either way the
  handler \<open>except Exception\<close> turns it into a failure result and no row is written.
\<close>

definition refresh_ghl_token ::
  "ghl_auth_credentials list \<Rightarrow> token_outcome \<Rightarrow> string option
     \<Rightarrow> (bool \<times> string) \<times> ghl_auth_credentials list" where
  "refresh_ghl_token creds post save_error =
     (case creds of
        [] \<Rightarrow> ((False, ''No authentication credentials found''), creds)
      | auth # rest \<Rightarrow>
          if refresh_token auth = [] then ((False, ''No refresh token available''), creds)
          else
            (case post of
               RequestException e \<Rightarrow> ((False, ''Network error: '' @ e), creds)
             | UnexpectedException e \<Rightarrow> ((False, ''Unexpected error: '' @ e), creds)
             | TokenResponse code error_text body \<Rightarrow>
                 if code \<noteq> 200
                 then ((False, ''Token refresh failed: '' @ str_nat code @ '' - '' @ error_text),
                       creds)
                 else
                   (case body of
                      Inl e \<Rightarrow> ((False, ''Network error: '' @ e), creds)
                    | Inr response_data \<Rightarrow>
                        (case (jget (r_access_token response_data),
                               jget_default (r_refresh_token response_data) (refresh_token auth),
                               jget_default (r_expires_in response_data) (expires_in auth)) of
                           (Some a, Some r, Some x) \<Rightarrow>
                             (case save_error of
                                Some e \<Rightarrow> ((False, ''Unexpected error: '' @ e), creds)
                              | None \<Rightarrow>
                                  ((True, ''Token refreshed successfully''),
                                   auth\<lparr> access_token := a, refresh_token := r, expires_in := x,
                                     scope := (if truthy (jget (r_scope response_data))
                                               then jget (r_scope response_data) else scope auth),
                                     user_type := (if truthy (jget (r_userType response_data))
                                               then jget (r_userType response_data)
                                               else user_type auth),
                                     company_id := (if truthy (jget (r_companyId response_data))
                                               then jget (r_companyId response_data)
                                               else company_id auth),
                                     user_id := (if truthy (jget (r_userId response_data))
                                               then jget (r_userId response_data)
                                               else user_id auth),
                                     location_id := (if truthy (jget (r_locationId response_data))
                                               then jget (r_locationId response_data)
                                               else location_id auth) \<rparr> # rest))
                         | _ \<Rightarrow> ((False, ''Unexpected error: NOT NULL constraint failed''),
                                 creds)))))"

text \<open>The token call did not deliver a parsed 200 answer.\<close>

definition token_call_failed :: "token_outcome \<Rightarrow> bool" where
  "token_call_failed post =
     (case post of
        TokenResponse code t body \<Rightarrow> (if code = 200 then isl body else True)
      | _ \<Rightarrow> True)"

text \<open>A 200 answer that carries a new access token and nothing else.\<close>

definition token_only :: token_response where
  "token_only = \<lparr> r_access_token = Val ''new'', r_refresh_token = Absent,
     r_expires_in = Absent, r_scope = Absent, r_userType = Absent, r_companyId = Absent,
     r_userId = Absent, r_locationId = Absent \<rparr>"

section \<open>ContactSync table\<close>

text \<open>
  The table is the list of its rows in primary-key order. The two identity columns are
  unique when not null; an insert gets the next free primary key.
\<close>

definition next_pk :: "nat option list \<Rightarrow> nat" where
  "next_pk pks = Suc (fold max (map (\<lambda>k. case k of None \<Rightarrow> 0 | Some n \<Rightarrow> n) pks) 0)"

definition contact_conflict :: "contact_sync \<Rightarrow> contact_sync list \<Rightarrow> bool" where
  "contact_conflict c rows =
     ((ephysio_patient_id c \<noteq> None
         \<and> list_ex (\<lambda>r. ephysio_patient_id r = ephysio_patient_id c) rows)
      \<or> (ghl_contact_id c \<noteq> None
         \<and> list_ex (\<lambda>r. ghl_contact_id r = ghl_contact_id c) rows))"

text \<open>
  \<open>bulk_create(..., ignore_conflicts=True)\<close>: each object is inserted unless it collides
  with a row already there, in which case it is silently left out.
\<close>

fun bulk_create_contacts :: "contact_sync list \<Rightarrow> contact_sync list \<Rightarrow> contact_sync list" where
  "bulk_create_contacts [] rows = rows"
| "bulk_create_contacts (c # cs) rows =
     bulk_create_contacts cs
       (if contact_conflict c rows then rows
        else rows @ [c\<lparr> pk := Some (next_pk (map pk rows)) \<rparr>])"

text \<open>
  \<open>bulk_update(objs, update_fields)\<close>: every row whose primary key is that of an object of
  the list takes the listed fields from that object.
\<close>

definition bulk_update_contacts :: "contact_sync list \<Rightarrow> contact_sync list \<Rightarrow> contact_sync list" where
  "bulk_update_contacts objs rows =
     map (\<lambda>row. case find (\<lambda>obj. pk obj = pk row) objs of
                   None \<Rightarrow> row
                 | Some obj \<Rightarrow>
                     row\<lparr> phone := phone obj, email := email obj, first_name := first_name obj,
                          last_name := last_name obj, salutation := salutation obj,
                          street := street obj, zip_f := zip_f obj, city := city obj,
                          birth_date := birth_date obj, sex := sex obj, source := source obj \<rparr>)
         rows"

text \<open>
  \<open>contact.save(update_fields=['ghl_contact_id'])\<close>: the write is refused
  (\<open>IntegrityError\<close>) when another row already holds that CRM id.
\<close>

definition save_ghl_contact_id ::
  "nat option \<Rightarrow> string \<Rightarrow> contact_sync list \<Rightarrow> contact_sync list option" where
  "save_ghl_contact_id key gid rows =
     (if list_ex (\<lambda>r. ghl_contact_id r = Some gid \<and> pk r \<noteq> key) rows then None
      else Some (map (\<lambda>r. if pk r = key then r\<lparr> ghl_contact_id := Some gid \<rparr> else r) rows))"

section \<open>Incremental patient sync\<close>

text \<open>
  A patient as the Clinic API lists it. The id is a number, a string, or missing, and
  \<open>str()\<close> renders it.
\<close>

datatype py_id = IdNone | IdInt int | IdStr string

definition str_int :: "int \<Rightarrow> string" where
  "str_int i = (if i < 0 then CHR ''-'' # str_nat (nat (- i)) else str_nat (nat i))"

definition py_str :: "py_id \<Rightarrow> string" where
  "py_str v = (case v of IdNone \<Rightarrow> ''None'' | IdInt i \<Rightarrow> str_int i | IdStr s \<Rightarrow> s)"

record patient =
  p_id :: py_id
  p_phone :: "string option"
  p_email :: "string option"
  p_firstName :: "string option"
  p_lastName :: "string option"
  p_salutation :: "string option"
  p_street :: "string option"
  p_zip :: "string option"
  p_city :: "string option"
  p_birthDate :: "string option"
  p_sex :: "bool option"

text \<open>
  The dictionary \<open>existing_contacts\<close>: rows with a Clinic id, keyed by it; of two rows with
  the same key the later one stays. The objects in it are mutated in place by the loop,
  so the dictionary doubles as the store of these objects and the work lists refer to
  them by key.
\<close>

definition existing_contacts :: "contact_sync list \<Rightarrow> (string \<rightharpoonup> contact_sync)" where
  "existing_contacts rows =
     map_of (rev (List.map_filter (\<lambda>c. map_option (\<lambda>k. (k, c)) (ephysio_patient_id c)) rows))"

datatype 'a obj_ref = Existing string | Fresh 'a

record patient_loop =
  existing :: "string \<rightharpoonup> contact_sync"
  contacts_to_create :: "contact_sync list"
  contacts_to_update :: "string list"
  contacts_to_sync_to_ghl :: "contact_sync obj_ref list"

text \<open>The assignments of the update branch of the loop, on one stored object.\<close>

definition update_from_patient :: "patient \<Rightarrow> contact_sync \<Rightarrow> contact_sync" where
  "update_from_patient patient contact =
     contact\<lparr>
       phone := or_none (p_phone patient),
       email := or_none (p_email patient),
       first_name := or_none (p_firstName patient),
       last_name := or_none (p_lastName patient),
       salutation := or_none (p_salutation patient),
       street := or_none (p_street patient),
       zip_f := or_none (p_zip patient),
       city := or_none (p_city patient),
       birth_date := or_none (p_birthDate patient),
       sex := p_sex patient,
       source := (if source contact = [] \<or> source contact = ''ephysio''
                  then ''ephysio'' else source contact) \<rparr>"

text \<open>The object built by the create branch of the loop.\<close>

definition contact_from_patient :: "string \<Rightarrow> patient \<Rightarrow> contact_sync" where
  "contact_from_patient patient_id patient =
     \<lparr> pk = None, ghl_contact_id = None,
       ephysio_patient_id = Some patient_id,
       email = or_none (p_email patient),
       phone = or_none (p_phone patient),
       first_name = or_none (p_firstName patient),
       last_name = or_none (p_lastName patient),
       salutation = or_none (p_salutation patient),
       street = or_none (p_street patient),
       zip_f = or_none (p_zip patient),
       city = or_none (p_city patient),
       birth_date = or_none (p_birthDate patient),
       sex = p_sex patient,
       source = ''ephysio'' \<rparr>"

text \<open>One iteration of \<open>for patient in patients\<close>.\<close>

definition patient_step :: "patient \<Rightarrow> patient_loop \<Rightarrow> patient_loop" where
  "patient_step patient st =
     (let patient_id = py_str (p_id patient)
      in if patient_id = [] then st
         else
           (case existing st patient_id of
              Some contact \<Rightarrow>
                st\<lparr> existing := (existing st)(patient_id \<mapsto> update_from_patient patient contact),
                    contacts_to_update := contacts_to_update st @ [patient_id],
                    contacts_to_sync_to_ghl :=
                      (if \<not> truthy (ghl_contact_id contact)
                       then contacts_to_sync_to_ghl st @ [Existing patient_id]
                       else contacts_to_sync_to_ghl st) \<rparr>
            | None \<Rightarrow>
                st\<lparr> contacts_to_create :=
                      contacts_to_create st @ [contact_from_patient patient_id patient],
                    contacts_to_sync_to_ghl :=
                      contacts_to_sync_to_ghl st
                        @ [Fresh (contact_from_patient patient_id patient)] \<rparr>))"

definition patient_loop_run :: "patient list \<Rightarrow> contact_sync list \<Rightarrow> patient_loop" where
  "patient_loop_run patients rows =
     fold patient_step patients
       \<lparr> existing = existing_contacts rows, contacts_to_create = [],
         contacts_to_update = [], contacts_to_sync_to_ghl = [] \<rparr>"

text \<open>Truthiness of a JSON value, and of an optional one.\<close>

definition json_truthy :: "json \<Rightarrow> bool" where
  "json_truthy v =
     (case v of JNull \<Rightarrow> False | JBool b \<Rightarrow> b | JNum n \<Rightarrow> n \<noteq> 0 | JStr s \<Rightarrow> s \<noteq> []
      | JArr xs \<Rightarrow> xs \<noteq> [] | JObj kvs \<Rightarrow> kvs \<noteq> [])"

definition opt_truthy :: "json option \<Rightarrow> bool" where
  "opt_truthy v = (case v of None \<Rightarrow> False | Some w \<Rightarrow> json_truthy w)"

text \<open>The text a character column stores for an id taken from a JSON answer.\<close>

definition id_text :: "json \<Rightarrow> string option" where
  "id_text v = (case v of JStr s \<Rightarrow> Some s | JNum n \<Rightarrow> Some (str_int n) | _ \<Rightarrow> None)"

text \<open>
  The id the sync loops take from a write result under the key \<open>k\<close> (\<open>contact\<close> or
  \<open>appointment\<close>): \<open>None\<close> stands for every path on which no id is stored (an error
  result, no id in the answer, or an exception caught by the per-item handler).
\<close>

definition extract_id :: "string \<Rightarrow> ghl_result \<Rightarrow> string option" where
  "extract_id k res =
     (case res of
        Failure e c \<Rightarrow> None
      | Success result \<Rightarrow>
          if result = [] \<or> opt_truthy (map_of result ''error'') then None
          else
            (case (if opt_truthy (map_of result k) then the (map_of result k) else JObj result) of
               JObj data \<Rightarrow>
                 (let v = (if opt_truthy (map_of data ''id'') then map_of data ''id''
                           else map_of result ''id'')
                  in if opt_truthy v then id_text (the v) else None)
             | _ \<Rightarrow> None))"

text \<open>
  The loop \<open>for contact in contacts_to_sync_to_ghl\<close>: \<open>ghl i\<close> is what the CRM does on the
  write for the \<open>i\<close>-th contact. It threads the table and the count of contacts linked.
\<close>

fun contacts_ghl_loop ::
  "ghl_auth_credentials list \<Rightarrow> (nat \<Rightarrow> nat \<Rightarrow> http_outcome) \<Rightarrow> nat \<Rightarrow> contact_sync list
     \<Rightarrow> contact_sync list \<times> nat \<Rightarrow> contact_sync list \<times> nat" where
  "contacts_ghl_loop creds ghl i [] acc = acc"
| "contacts_ghl_loop creds ghl i (contact # rest) (rows, synced) =
     contacts_ghl_loop creds ghl (Suc i) rest
       (case extract_id ''contact'' (fst (create_ghl_contact creds (ghl i))) of
          None \<Rightarrow> (rows, synced)
        | Some gid \<Rightarrow>
            (case save_ghl_contact_id (pk contact) gid rows of
               None \<Rightarrow> (rows, synced)
             | Some rows' \<Rightarrow> (rows', Suc synced)))"

text \<open>What the tasks return; the timestamp of the dictionary is left out.\<close>

record task_result =
  r_status :: string
  r_message :: string
  r_total :: "nat option"
  r_created :: "nat option"
  r_updated :: "nat option"
  r_synced_to_ghl :: "nat option"

text \<open>
  Exceptions at the storage boundary: the message of the exception, if the step raises.
  The steps are the queries that build the dictionaries, the two bulk writes, the query
  that reads the created rows back, and the query for the CRM credentials.
\<close>

record db_faults =
  query_error :: "string option"
  bulk_update_error :: "string option"
  bulk_create_error :: "string option"
  refetch_error :: "string option"
  auth_query_error :: "string option"

definition pk_truthy :: "nat option \<Rightarrow> bool" where
  "pk_truthy k = (case k of None \<Rightarrow> False | Some n \<Rightarrow> n \<noteq> 0)"

text \<open>
  The two bulk writes of \<open>sync_patients_incremental\<close>, each in its own transaction: the
  table as it stands afterwards, and either the message of the exception raised or the
  counts \<open>(total_created, total_updated)\<close>.
\<close>

definition persist_contacts ::
  "contact_sync list \<Rightarrow> db_faults \<Rightarrow> patient_loop
     \<Rightarrow> contact_sync list \<times> (string + nat \<times> nat)" where
  "persist_contacts rows faults st =
     (let to_update = List.map_filter (existing st) (contacts_to_update st)
      in if to_update \<noteq> [] \<and> bulk_update_error faults \<noteq> None
         then (rows, Inl (the (bulk_update_error faults)))
         else
           let rows1 = (if to_update \<noteq> [] then bulk_update_contacts to_update rows else rows)
           in if contacts_to_create st \<noteq> [] \<and> bulk_create_error faults \<noteq> None
              then (rows1, Inl (the (bulk_create_error faults)))
              else
                (if contacts_to_create st \<noteq> []
                 then bulk_create_contacts (contacts_to_create st) rows1 else rows1,
                 Inr (length (contacts_to_create st), length to_update)))"

text \<open>
  The gap fill of \<open>sync_patients_incremental\<close>: the objects of the sync list that are
  already saved, then the newly created rows read back from the table, are pushed to the
  CRM. The read-back query runs only when something was created, and the credentials
  query only when the sync list is not empty; either may raise. It returns the table and
  either the exception's message or \<open>total_synced_to_ghl\<close>.
\<close>

definition dispatch_contacts ::
  "ghl_auth_credentials list \<Rightarrow> (nat \<Rightarrow> nat \<Rightarrow> http_outcome) \<Rightarrow> db_faults \<Rightarrow> patient_loop
     \<Rightarrow> contact_sync list \<Rightarrow> contact_sync list \<times> (string + nat)" where
  "dispatch_contacts creds ghl faults st rows2 =
     (let created_patient_ids = List.map_filter ephysio_patient_id (contacts_to_create st);
          saved = filter (\<lambda>c. pk_truthy (pk c))
                    (List.map_filter
                       (\<lambda>r. case r of Existing k \<Rightarrow> existing st k | Fresh c \<Rightarrow> Some c)
                       (contacts_to_sync_to_ghl st))
      in if created_patient_ids \<noteq> [] \<and> refetch_error faults \<noteq> None
         then (rows2, Inl (the (refetch_error faults)))
         else
           let newly_created =
                 filter (\<lambda>r. (case ephysio_patient_id r of
                                 None \<Rightarrow> False
                               | Some k \<Rightarrow> k \<in> set created_patient_ids)
                              \<and> ghl_contact_id r = None) rows2;
               to_sync = saved @ newly_created
           in if to_sync = [] then (rows2, Inr 0)
              else if auth_query_error faults \<noteq> None
              then (rows2, Inl (the (auth_query_error faults)))
              else if truthy (fst (get_ghl_auth creds)) \<and> truthy (snd (get_ghl_auth creds))
              then (fst (contacts_ghl_loop creds ghl 0 to_sync (rows2, 0)),
                    Inr (snd (contacts_ghl_loop creds ghl 0 to_sync (rows2, 0))))
              else (rows2, Inr 0))"

text \<open>
  The body of the \<open>try\<close> block of \<open>sync_patients_incremental\<close>: the table as it stands when
  the block is left, and either the message of the exception that left it or the result
  it returned. \<open>fetch\<close> is what \<open>get_active_patients()\<close> produces.
\<close>

definition sync_patients_body ::
  "contact_sync list \<Rightarrow> ghl_auth_credentials list \<Rightarrow> string + patient list \<Rightarrow> db_faults
     \<Rightarrow> (nat \<Rightarrow> nat \<Rightarrow> http_outcome) \<Rightarrow> contact_sync list \<times> (string + task_result)" where
  "sync_patients_body rows creds fetch faults ghl =
     (case fetch of
        Inl e \<Rightarrow> (rows, Inl e)
      | Inr patients \<Rightarrow>
          if patients = [] then
            (rows, Inr \<lparr> r_status = ''success'', r_message = ''No patients found'',
                         r_total = None, r_created = Some 0, r_updated = Some 0,
                         r_synced_to_ghl = Some 0 \<rparr>)
          else
            (case query_error faults of
               Some e \<Rightarrow> (rows, Inl e)
             | None \<Rightarrow>
                 (case persist_contacts rows faults (patient_loop_run patients rows) of
                    (rows1, Inl e) \<Rightarrow> (rows1, Inl e)
                  | (rows2, Inr (total_created, total_updated)) \<Rightarrow>
                      (case dispatch_contacts creds ghl faults (patient_loop_run patients rows)
                              rows2 of
                         (rows3, Inl e) \<Rightarrow> (rows3, Inl e)
                       | (rows3, Inr total_synced) \<Rightarrow>
                           (rows3,
                            Inr \<lparr> r_status = ''success'',
                                  r_message = ''Patient sync completed'',
                                  r_total = Some (length patients),
                                  r_created = Some total_created,
                                  r_updated = Some total_updated,
                                  r_synced_to_ghl = Some total_synced \<rparr>)))))"

text \<open>
  \<open>sync_patients_incremental\<close>: the \<open>except Exception\<close> handler turns an exception of the
  body into an error result.
\<close>

definition sync_patients_incremental ::
  "contact_sync list \<Rightarrow> ghl_auth_credentials list \<Rightarrow> string + patient list \<Rightarrow> db_faults
     \<Rightarrow> (nat \<Rightarrow> nat \<Rightarrow> http_outcome) \<Rightarrow> contact_sync list \<times> task_result" where
  "sync_patients_incremental rows creds fetch faults ghl =
     (case sync_patients_body rows creds fetch faults ghl of
        (rows', Inl e) \<Rightarrow>
          (rows', \<lparr> r_status = ''error'',
                    r_message = ''Error in incremental patient sync: '' @ e,
                    r_total = None, r_created = None, r_updated = None,
                    r_synced_to_ghl = None \<rparr>)
      | (rows', Inr result) \<Rightarrow> (rows', result))"

text \<open>Concrete inputs for the patient sync.\<close>

definition patient42 :: patient where
  "patient42 = \<lparr> p_id = IdInt 42, p_phone = Some ''+41791234567'', p_email = None,
     p_firstName = Some ''Ada'', p_lastName = Some ''Meier'', p_salutation = None,
     p_street = None, p_zip = None, p_city = None, p_birthDate = Some ''15.03.1990'',
     p_sex = None \<rparr>"

definition no_faults :: db_faults where
  "no_faults = \<lparr> query_error = None, bulk_update_error = None, bulk_create_error = None,
     refetch_error = None, auth_query_error = None \<rparr>"

definition ghl_creates :: "string \<Rightarrow> nat \<Rightarrow> nat \<Rightarrow> http_outcome" where
  "ghl_creates gid i attempt =
     Response \<lparr> status_code = 201, text_body = [],
                json_body = Inr [(''contact'', JObj [(''id'', JStr gid)])] \<rparr>"

text \<open>
  The task as the scheduler runs it. Its first statement, \<open>get_active_patients()\<close>, talks
  to the Clinic API with the credentials of the \<open>EPhysioAuth\<close> table and may rewrite that
  table, so the run is modelled over both tables.

  \<open>EPhysioAuth\<close> of \<open>ephysio/models.py\<close>; the table is the list of its rows in primary-key
  order.
\<close>

record ephysio_auth =
  auth_id :: nat
  token :: string
  crypto_key :: string
  practice_id :: string
  expires_at :: "int option"
















section \<open>Per-item classification of the appointment dispatcher\<close>





datatype item_status = Created | Skipped | Error





section \<open>What a sync cycle keeps of a row\<close>

text \<open>
  \<open>kept r r'\<close>: \<open>r'\<close> is the row \<open>r\<close> at a later time, with its primary key and Clinic id,
  and with its source if that was set. \<open>extends_keeping rows rows'\<close>: the later table
  \<open>rows'\<close> holds every row of \<open>rows\<close> in place, kept in this sense, and possibly new rows
  after them.
\<close>

definition kept :: "contact_sync \<Rightarrow> contact_sync \<Rightarrow> bool" where
  "kept r r' = (pk r' = pk r \<and> ephysio_patient_id r' = ephysio_patient_id r
                \<and> (source r \<noteq> [] \<longrightarrow> source r' = source r))"

definition extends_keeping :: "contact_sync list \<Rightarrow> contact_sync list \<Rightarrow> bool" where
  "extends_keeping rows rows' =
     (length rows \<le> length rows' \<and> list_all2 kept rows (take (length rows) rows'))"

section \<open>AppointmentSync table\<close>

definition appointment_conflict :: "appointment_sync \<Rightarrow> appointment_sync list \<Rightarrow> bool" where
  "appointment_conflict a rows =
     ((ephysio_appointment_id a \<noteq> None
         \<and> list_ex (\<lambda>r. ephysio_appointment_id r = ephysio_appointment_id a) rows)
      \<or> (ghl_appointment_id a \<noteq> None
         \<and> list_ex (\<lambda>r. ghl_appointment_id r = ghl_appointment_id a) rows))"

fun bulk_create_appointments ::
  "appointment_sync list \<Rightarrow> appointment_sync list \<Rightarrow> appointment_sync list" where
  "bulk_create_appointments [] rows = rows"
| "bulk_create_appointments (a # as) rows =
     bulk_create_appointments as
       (if appointment_conflict a rows then rows
        else rows @ [a\<lparr> a_pk := Some (next_pk (map a_pk rows)) \<rparr>])"

definition bulk_update_appointments ::
  "appointment_sync list \<Rightarrow> appointment_sync list \<Rightarrow> appointment_sync list" where
  "bulk_update_appointments objs rows =
     map (\<lambda>row. case find (\<lambda>obj. a_pk obj = a_pk row) objs of
                   None \<Rightarrow> row
                 | Some obj \<Rightarrow>
                     row\<lparr> start_time := start_time obj, end_time := end_time obj,
                          status := status obj, event_type_id := event_type_id obj,
                          a_user_id := a_user_id obj, client_id := client_id obj,
                          admin_info_id := admin_info_id obj,
                          a_ephysio_patient_id := a_ephysio_patient_id obj,
                          a_ghl_contact_id := a_ghl_contact_id obj,
                          a_source := a_source obj \<rparr>)
         rows"

definition save_ghl_appointment_id ::
  "nat option \<Rightarrow> string \<Rightarrow> appointment_sync list \<Rightarrow> appointment_sync list option" where
  "save_ghl_appointment_id key gid rows =
     (if list_ex (\<lambda>r. ghl_appointment_id r = Some gid \<and> a_pk r \<noteq> key) rows then None
      else Some (map (\<lambda>r. if a_pk r = key then r\<lparr> ghl_appointment_id := Some gid \<rparr> else r) rows))"

section \<open>Incremental appointment sync\<close>

text \<open>
  An event as the Clinic API lists it. \<open>ev_status\<close> is \<open>None\<close> when the key is missing,
  in which case the default \<open>''\<close> of \<open>appointment.get('status', '')\<close> applies.
\<close>

record ephysio_event =
  ev_id :: py_id
  ev_patientId :: py_id
  ev_start :: "int option"
  ev_end :: "int option"
  ev_status :: "py_id option"
  ev_eventTypeId :: "int option"
  ev_user_id :: "int option"
  ev_clientId :: "int option"
  ev_adminInfoId :: "int option"

text \<open>
  \<open>epoch_ms_to_datetime\<close>: nothing for a missing or zero timestamp; otherwise
  \<open>datetime.fromtimestamp(epoch_ms / 1000.0)\<close>, which raises when the instant lies
  outside the years 1 to 9999. The local zone is taken to be UTC, and the message of the
  exception is shortened.
\<close>

definition epoch_ms_to_datetime :: "int option \<Rightarrow> string + datetime option" where
  "epoch_ms_to_datetime epoch_ms =
     (case epoch_ms of
        None \<Rightarrow> Inr None
      | Some ms \<Rightarrow>
          if ms = 0 then Inr None
          else if - 62135596800000 \<le> ms \<and> ms \<le> 253402300799999 then Inr (Some ms)
          else Inl ''year is out of range'')"

definition event_status :: "ephysio_event \<Rightarrow> string option" where
  "event_status appointment =
     (case ev_status appointment of None \<Rightarrow> None | Some v \<Rightarrow> or_none (Some (py_str v)))"

text \<open>The dictionary \<open>existing_appointments\<close>, keyed by the Clinic appointment id.\<close>

definition existing_appointments :: "appointment_sync list \<Rightarrow> (string \<rightharpoonup> appointment_sync)" where
  "existing_appointments rows =
     map_of (rev (List.map_filter (\<lambda>a. map_option (\<lambda>k. (k, a)) (ephysio_appointment_id a)) rows))"

text \<open>
  The CRM contact id resolved for a Clinic patient id through \<open>contact_sync_map\<close>, which
  is built from the ContactSync table exactly as \<open>existing_contacts\<close> is.
\<close>

definition resolve_ghl_contact_id :: "contact_sync list \<Rightarrow> string \<Rightarrow> string option" where
  "resolve_ghl_contact_id contacts ephysio_patient_id' =
     (case existing_contacts contacts ephysio_patient_id' of
        None \<Rightarrow> None
      | Some contact_sync \<Rightarrow>
          if truthy (ghl_contact_id contact_sync) then ghl_contact_id contact_sync else None)"

record appointment_loop =
  existing_a :: "string \<rightharpoonup> appointment_sync"
  appointments_to_create :: "appointment_sync list"
  appointments_to_update :: "string list"
  appointments_to_sync_to_ghl :: "appointment_sync obj_ref list"

text \<open>The assignments of the update branch, on one stored object.\<close>

definition update_from_event ::
  "ephysio_event \<Rightarrow> datetime \<Rightarrow> datetime \<Rightarrow> string \<Rightarrow> string option
     \<Rightarrow> appointment_sync \<Rightarrow> appointment_sync" where
  "update_from_event appointment start_time' end_time' patient_id ghl_contact_id' appt_sync =
     appt_sync\<lparr>
       start_time := start_time',
       end_time := end_time',
       status := event_status appointment,
       event_type_id := ev_eventTypeId appointment,
       a_user_id := ev_user_id appointment,
       client_id := ev_clientId appointment,
       admin_info_id := ev_adminInfoId appointment,
       a_ephysio_patient_id := patient_id,
       a_ghl_contact_id := ghl_contact_id',
       a_source := (if a_source appt_sync = [] \<or> a_source appt_sync = ''ephysio''
                    then ''ephysio'' else a_source appt_sync) \<rparr>"

text \<open>The object built by the create branch.\<close>

definition appointment_from_event ::
  "ephysio_event \<Rightarrow> string \<Rightarrow> datetime \<Rightarrow> datetime \<Rightarrow> string \<Rightarrow> string option
     \<Rightarrow> appointment_sync" where
  "appointment_from_event appointment appointment_id start_time' end_time' patient_id
       ghl_contact_id' =
     \<lparr> a_pk = None, ghl_appointment_id = None, a_ghl_contact_id = ghl_contact_id',
       a_ephysio_patient_id = patient_id, ephysio_appointment_id = Some appointment_id,
       start_time = start_time', end_time = end_time',
       status = event_status appointment,
       event_type_id = ev_eventTypeId appointment,
       a_user_id = ev_user_id appointment,
       client_id = ev_clientId appointment,
       admin_info_id = ev_adminInfoId appointment,
       a_source = ''ephysio'' \<rparr>"

text \<open>
  The part of an iteration of \<open>for appointment in appointments\<close> that follows the two
  conversions: the CRM contact id is resolved, and the event goes to the update or to
  the create branch.
\<close>

definition appointment_upsert ::
  "contact_sync list \<Rightarrow> ephysio_event \<Rightarrow> string \<Rightarrow> string \<Rightarrow> datetime \<Rightarrow> datetime
     \<Rightarrow> appointment_loop \<Rightarrow> appointment_loop" where
  "appointment_upsert contacts appointment appointment_id patient_id start_time' end_time' st =
     (let ghl_contact_id' = resolve_ghl_contact_id contacts patient_id
      in (case existing_a st appointment_id of
            Some appt_sync \<Rightarrow>
              st\<lparr> existing_a := (existing_a st)(appointment_id \<mapsto>
                     update_from_event appointment start_time' end_time' patient_id
                       ghl_contact_id' appt_sync),
                  appointments_to_update := appointments_to_update st @ [appointment_id],
                  appointments_to_sync_to_ghl :=
                    (if \<not> truthy (ghl_appointment_id appt_sync) \<and> truthy ghl_contact_id'
                     then appointments_to_sync_to_ghl st @ [Existing appointment_id]
                     else appointments_to_sync_to_ghl st) \<rparr>
          | None \<Rightarrow>
              st\<lparr> appointments_to_create :=
                    appointments_to_create st
                      @ [appointment_from_event appointment appointment_id start_time'
                           end_time' patient_id ghl_contact_id'],
                  appointments_to_sync_to_ghl :=
                    (if truthy ghl_contact_id'
                     then appointments_to_sync_to_ghl st
                            @ [Fresh (appointment_from_event appointment appointment_id
                                        start_time' end_time' patient_id ghl_contact_id')]
                     else appointments_to_sync_to_ghl st) \<rparr>))"

text \<open>
  One iteration of \<open>for appointment in appointments\<close>: \<open>Inl\<close> the message when a
  conversion raises, which ends the loop; both conversions are made before either result
  is looked at.
\<close>

definition appointment_step ::
  "contact_sync list \<Rightarrow> ephysio_event \<Rightarrow> appointment_loop \<Rightarrow> string + appointment_loop" where
  "appointment_step contacts appointment st =
     (let appointment_id = py_str (ev_id appointment);
          patient_id = py_str (ev_patientId appointment)
      in if appointment_id = [] \<or> patient_id = [] then Inr st
         else
           (case epoch_ms_to_datetime (ev_start appointment) of
              Inl e \<Rightarrow> Inl e
            | Inr start_time' \<Rightarrow>
                (case epoch_ms_to_datetime (ev_end appointment) of
                   Inl e \<Rightarrow> Inl e
                 | Inr end_time' \<Rightarrow>
                     (case (start_time', end_time') of
                        (Some s, Some e) \<Rightarrow>
                          Inr (appointment_upsert contacts appointment appointment_id
                                 patient_id s e st)
                      | _ \<Rightarrow> Inr st))))"

fun appointment_loop_from ::
  "contact_sync list \<Rightarrow> ephysio_event list \<Rightarrow> appointment_loop \<Rightarrow> string + appointment_loop" where
  "appointment_loop_from contacts [] st = Inr st"
| "appointment_loop_from contacts (appointment # rest) st =
     (case appointment_step contacts appointment st of
        Inl e \<Rightarrow> Inl e
      | Inr st' \<Rightarrow> appointment_loop_from contacts rest st')"

definition appointment_loop_run ::
  "contact_sync list \<Rightarrow> ephysio_event list \<Rightarrow> appointment_sync list
     \<Rightarrow> string + appointment_loop" where
  "appointment_loop_run contacts appointments rows =
     appointment_loop_from contacts appointments
       \<lparr> existing_a = existing_appointments rows, appointments_to_create = [],
         appointments_to_update = [], appointments_to_sync_to_ghl = [] \<rparr>"

text \<open>The two bulk writes of \<open>sync_appointments_incremental\<close>.\<close>

definition persist_appointments ::
  "appointment_sync list \<Rightarrow> db_faults \<Rightarrow> appointment_loop
     \<Rightarrow> appointment_sync list \<times> (string + nat \<times> nat)" where
  "persist_appointments rows faults st =
     (let to_update = List.map_filter (existing_a st) (appointments_to_update st)
      in if to_update \<noteq> [] \<and> bulk_update_error faults \<noteq> None
         then (rows, Inl (the (bulk_update_error faults)))
         else
           let rows1 = (if to_update \<noteq> [] then bulk_update_appointments to_update rows
                        else rows)
           in if appointments_to_create st \<noteq> [] \<and> bulk_create_error faults \<noteq> None
              then (rows1, Inl (the (bulk_create_error faults)))
              else
                (if appointments_to_create st \<noteq> []
                 then bulk_create_appointments (appointments_to_create st) rows1 else rows1,
                 Inr (length (appointments_to_create st), length to_update)))"

text \<open>
  The loop \<open>for appt_sync in appointments_to_sync_to_ghl\<close>. It threads the table, the
  count of appointments linked, and the list of the objects that were passed to
  \<open>create_ghl_appointment\<close>, in call order. The loop's assignment of the new CRM id to
  the in-memory object is not tracked: nothing reads it afterwards.
\<close>

fun appointments_ghl_loop ::
  "ghl_auth_credentials list \<Rightarrow> (nat \<Rightarrow> nat \<Rightarrow> http_outcome) \<Rightarrow> nat \<Rightarrow> appointment_sync list
     \<Rightarrow> appointment_sync list \<times> nat \<times> appointment_sync list
     \<Rightarrow> appointment_sync list \<times> nat \<times> appointment_sync list" where
  "appointments_ghl_loop creds ghl i [] acc = acc"
| "appointments_ghl_loop creds ghl i (appt_sync # rest) (rows, synced, calls) =
     appointments_ghl_loop creds ghl (Suc i) rest
       (if \<not> truthy (a_ghl_contact_id appt_sync) then (rows, synced, calls)
        else
          (case extract_id ''appointment'' (fst (create_ghl_appointment creds appt_sync (ghl i))) of
             None \<Rightarrow> (rows, synced, calls @ [appt_sync])
           | Some gid \<Rightarrow>
               (case save_ghl_appointment_id (a_pk appt_sync) gid rows of
                  None \<Rightarrow> (rows, synced, calls @ [appt_sync])
                | Some rows' \<Rightarrow> (rows', Suc synced, calls @ [appt_sync]))))"

text \<open>
  The gap fill of \<open>sync_appointments_incremental\<close>: the dispatch list is made of the
  objects of the sync list that are already saved and of the newly created rows read
  back from the table with a CRM contact id.
\<close>

definition dispatch_list ::
  "appointment_loop \<Rightarrow> appointment_sync list \<Rightarrow> appointment_sync list" where
  "dispatch_list st rows2 =
     (let created_appointment_ids =
            List.map_filter ephysio_appointment_id (appointments_to_create st);
          saved = filter (\<lambda>a. pk_truthy (a_pk a))
                    (List.map_filter
                       (\<lambda>r. case r of Existing k \<Rightarrow> existing_a st k | Fresh a \<Rightarrow> Some a)
                       (appointments_to_sync_to_ghl st));
          newly_created =
            filter (\<lambda>r. (case ephysio_appointment_id r of
                            None \<Rightarrow> False
                          | Some k \<Rightarrow> k \<in> set created_appointment_ids)
                         \<and> ghl_appointment_id r = None
                         \<and> a_ghl_contact_id r \<noteq> None) rows2
      in saved @ newly_created)"

text \<open>
  The read-back query runs only when something was created, and the credentials query
  only when the dispatch list is not empty; either may raise. The result is the table,
  the objects passed to \<open>create_ghl_appointment\<close>, and either the exception's message or
  \<open>total_synced_to_ghl\<close>.
\<close>

definition dispatch_appointments ::
  "ghl_auth_credentials list \<Rightarrow> (nat \<Rightarrow> nat \<Rightarrow> http_outcome) \<Rightarrow> db_faults \<Rightarrow> appointment_loop
     \<Rightarrow> appointment_sync list
     \<Rightarrow> appointment_sync list \<times> appointment_sync list \<times> (string + nat)" where
  "dispatch_appointments creds ghl faults st rows2 =
     (if List.map_filter ephysio_appointment_id (appointments_to_create st) \<noteq> []
         \<and> refetch_error faults \<noteq> None
      then (rows2, [], Inl (the (refetch_error faults)))
      else
        let to_sync = dispatch_list st rows2
        in if to_sync = [] then (rows2, [], Inr 0)
           else if auth_query_error faults \<noteq> None
           then (rows2, [], Inl (the (auth_query_error faults)))
           else if truthy (fst (get_ghl_auth creds)) \<and> truthy (snd (get_ghl_auth creds))
           then (fst (appointments_ghl_loop creds ghl 0 to_sync (rows2, 0, [])),
                 snd (snd (appointments_ghl_loop creds ghl 0 to_sync (rows2, 0, []))),
                 Inr (fst (snd (appointments_ghl_loop creds ghl 0 to_sync (rows2, 0, [])))))
           else (rows2, [], Inr 0))"

text \<open>
  The body of the \<open>try\<close> block of \<open>sync_appointments_incremental\<close>: the table when the
  block is left, the objects passed to \<open>create_ghl_appointment\<close>, and either the message
  of the exception or the result. \<open>fetch\<close> is what \<open>get_ephysio_appointments\<close> produces;
  \<open>contacts\<close> is the ContactSync table, which the task only reads; \<open>query_error\<close> stands
  for the two queries that build the dictionaries.
\<close>

definition sync_appointments_body ::
  "appointment_sync list \<Rightarrow> contact_sync list \<Rightarrow> ghl_auth_credentials list
     \<Rightarrow> string + ephysio_event list \<Rightarrow> db_faults \<Rightarrow> (nat \<Rightarrow> nat \<Rightarrow> http_outcome)
     \<Rightarrow> appointment_sync list \<times> appointment_sync list \<times> (string + task_result)" where
  "sync_appointments_body rows contacts creds fetch faults ghl =
     (case fetch of
        Inl e \<Rightarrow> (rows, [], Inl e)
      | Inr appointments \<Rightarrow>
          if appointments = [] then
            (rows, [], Inr \<lparr> r_status = ''success'', r_message = ''No appointments found'',
                             r_total = None, r_created = Some 0, r_updated = Some 0,
                             r_synced_to_ghl = Some 0 \<rparr>)
          else
            (case query_error faults of
               Some e \<Rightarrow> (rows, [], Inl e)
             | None \<Rightarrow>
                 (case appointment_loop_run contacts appointments rows of
                    Inl e \<Rightarrow> (rows, [], Inl e)
                  | Inr st \<Rightarrow>
                      (case persist_appointments rows faults st of
                         (rows1, Inl e) \<Rightarrow> (rows1, [], Inl e)
                       | (rows2, Inr (total_created, total_updated)) \<Rightarrow>
                           (case dispatch_appointments creds ghl faults st rows2 of
                              (rows3, calls, Inl e) \<Rightarrow> (rows3, calls, Inl e)
                            | (rows3, calls, Inr total_synced) \<Rightarrow>
                                (rows3, calls,
                                 Inr \<lparr> r_status = ''success'',
                                       r_message = ''Appointment sync completed'',
                                       r_total = Some (length appointments),
                                       r_created = Some total_created,
                                       r_updated = Some total_updated,
                                       r_synced_to_ghl = Some total_synced \<rparr>))))))"

definition sync_appointments_incremental ::
  "appointment_sync list \<Rightarrow> contact_sync list \<Rightarrow> ghl_auth_credentials list
     \<Rightarrow> string + ephysio_event list \<Rightarrow> db_faults \<Rightarrow> (nat \<Rightarrow> nat \<Rightarrow> http_outcome)
     \<Rightarrow> appointment_sync list \<times> appointment_sync list \<times> task_result" where
  "sync_appointments_incremental rows contacts creds fetch faults ghl =
     (case sync_appointments_body rows contacts creds fetch faults ghl of
        (rows', calls, Inl e) \<Rightarrow>
          (rows', calls,
           \<lparr> r_status = ''error'',
             r_message = ''Error in incremental appointment sync: '' @ e,
             r_total = None, r_created = None, r_updated = None,
             r_synced_to_ghl = None \<rparr>)
      | (rows', calls, Inr result) \<Rightarrow> (rows', calls, result))"

text \<open>Concrete inputs for the appointment sync.\<close>

definition event7 :: ephysio_event where
  "event7 = \<lparr> ev_id = IdInt 7, ev_patientId = IdInt 42, ev_start = Some 1758911400000,
     ev_end = Some 1758915000000, ev_status = Some (IdInt 5), ev_eventTypeId = None,
     ev_user_id = None, ev_clientId = None, ev_adminInfoId = None \<rparr>"

definition contact42 :: "string option \<Rightarrow> contact_sync" where
  "contact42 gid = blank_contact\<lparr> pk := Some 1, ghl_contact_id := gid,
     ephysio_patient_id := Some ''42'', phone := Some ''+41791234567'',
     source := ''ephysio'' \<rparr>"

definition ghl_books :: "string \<Rightarrow> nat \<Rightarrow> nat \<Rightarrow> http_outcome" where
  "ghl_books gid i attempt =
     Response \<lparr> status_code = 201, text_body = [],
                json_body = Inr [(''appointment'', JObj [(''id'', JStr gid)])] \<rparr>"

text \<open>The same two relations for the AppointmentSync table.\<close>

definition a_kept :: "appointment_sync \<Rightarrow> appointment_sync \<Rightarrow> bool" where
  "a_kept r r' = (a_pk r' = a_pk r \<and> ephysio_appointment_id r' = ephysio_appointment_id r
                  \<and> (a_source r \<noteq> [] \<longrightarrow> a_source r' = a_source r))"

definition a_extends_keeping :: "appointment_sync list \<Rightarrow> appointment_sync list \<Rightarrow> bool" where
  "a_extends_keeping rows rows' =
     (length rows \<le> length rows' \<and> list_all2 a_kept rows (take (length rows) rows'))"

text \<open>A second fetched patient, and the row a CRM webhook left for it.\<close>

definition patient7 :: patient where
  "patient7 = \<lparr> p_id = IdStr ''7'', p_phone = Some ''0791112233'', p_email = None,
     p_firstName = Some ''Bea'', p_lastName = None, p_salutation = None,
     p_street = None, p_zip = None, p_city = None, p_birthDate = None, p_sex = None \<rparr>"

definition contact7 :: contact_sync where
  "contact7 = blank_contact\<lparr> pk := Some 1, ghl_contact_id := Some ''g7'',
     ephysio_patient_id := Some ''7'', source := ''ghl'' \<rparr>"

section \<open>Facts about the string primitives and the contact payload\<close>

lemma split_on_ne: "split_on c s \<noteq> []"
  by (induction s) (auto split: list.splits)

lemma split_on_nosep: "c \<notin> set s \<Longrightarrow> split_on c s = [s]"
  by (induction s) (auto split: list.splits)

lemma split_on_app: "c \<notin> set s \<Longrightarrow> split_on c (s @ c # t) = s # split_on c t"
  by (induction s) (auto split: list.splits simp: split_on_ne)

lemma digit_not_dot: "list_all is_ascii_digit s \<Longrightarrow> CHR ''.'' \<notin> set s"
  by (auto simp: list_all_iff is_ascii_digit_def)

lemma ddmmyyyy_decomp:
  assumes "is_ddmmyyyy s"
  shows "s = take 2 s @ CHR ''.'' # take 2 (drop 3 s) @ CHR ''.'' # drop 6 s"
proof -
  from assms have len: "length s = 10" and d2: "s ! 2 = CHR ''.''" and d5: "s ! 5 = CHR ''.''"
    by (simp_all add: is_ddmmyyyy_def)
  have a: "s = take 2 s @ s ! 2 # drop 3 s"
    using id_take_nth_drop [of 2 s] len by simp
  have b: "drop 3 s = take 2 (drop 3 s) @ (drop 3 s) ! 2 # drop 3 (drop 3 s)"
    using id_take_nth_drop [of 2 "drop 3 s"] len by simp
  have c: "(drop 3 s) ! 2 = s ! 5" using len by simp
  have d: "drop 3 (drop 3 s) = drop 6 s" by simp
  from a b c d d2 d5 show ?thesis by metis
qed


lemma map_of_drop_none:
  "distinct (map fst xs) \<Longrightarrow>
   map_of (drop_none xs) k = (case map_of xs k of None \<Rightarrow> None | Some v \<Rightarrow> v)"
proof (induction xs)
  case Nil
  then show ?case by (simp add: drop_none_def List.map_filter_def)
next
  case (Cons x xs)
  obtain a v where x: "x = (a, v)" by (cases x)
  from Cons.prems x have notin: "a \<notin> fst ` set xs" and d: "distinct (map fst xs)" by auto
  from notin have none: "map_of xs a = None" by (simp add: map_of_eq_None_iff)
  have step: "drop_none ((a, v) # xs) = (case v of None \<Rightarrow> drop_none xs | Some w \<Rightarrow> (a, w) # drop_none xs)"
    by (simp add: drop_none_def List.map_filter_def split: option.splits)
  show ?case using Cons.IH [OF d] none unfolding x step
    by (cases v) auto
qed

lemma distinct_payload_items: "distinct (map fst (payload_items c))"
  by (simp add: payload_items_def Let_def)

lemma map_of_items_dob:
  "map_of (payload_items c) ''dateOfBirth'' =
     (if truthy (date_of_birth (birth_date c)) then Some (date_of_birth (birth_date c)) else None)"
  by (simp add: payload_items_def Let_def)

lemma dob_nonempty: "date_of_birth bd = Some x \<Longrightarrow> x \<noteq> []"
  by (auto simp: date_of_birth_def split: if_splits list.splits)

lemma payload_dob:
  "map_of (build_ghl_contact_payload c) ''dateOfBirth'' = date_of_birth (birth_date c)"
  by (simp add: build_ghl_contact_payload_def map_of_drop_none distinct_payload_items
      map_of_items_dob truthy_def dob_nonempty split: option.splits)

lemma dob_three:
  "truthy bd \<Longrightarrow> split_on (CHR ''.'') (the bd) = [d, m, y] \<Longrightarrow>
   date_of_birth bd = Some (y @ ''-'' @ zfill m 2 @ ''-'' @ zfill d 2)"
  by (simp add: date_of_birth_def)

lemma dob_none_iff:
  "date_of_birth bd = None \<longleftrightarrow> (\<not> truthy bd \<or> length (split_on (CHR ''.'') (the bd)) \<noteq> 3)"
  by (auto simp: date_of_birth_def split: list.splits)


lemma split_ddmmyyyy:
  assumes "is_ddmmyyyy s"
  shows "split_on (CHR ''.'') s = [take 2 s, take 2 (drop 3 s), drop 6 s]"
proof -
  from assms have d1: "CHR ''.'' \<notin> set (take 2 s)"
    and d2: "CHR ''.'' \<notin> set (take 2 (drop 3 s))"
    and d3: "CHR ''.'' \<notin> set (drop 6 s)"
    by (simp_all add: is_ddmmyyyy_def digit_not_dot)
  have "split_on (CHR ''.'') (take 2 s @ CHR ''.'' # take 2 (drop 3 s) @ CHR ''.'' # drop 6 s)
        = [take 2 s, take 2 (drop 3 s), drop 6 s]"
    by (simp only: split_on_app [OF d1] split_on_app [OF d2] split_on_nosep [OF d3])
  with ddmmyyyy_decomp [OF assms] show ?thesis by simp
qed

section \<open>Field mapper claims\<close>


text \<open>
  C5. Composing the two phone normalisers on \<open>+41 79 123 45 67\<close> (first the Clinic-facing
  \<open>normalize_phone\<close>, then the CRM-facing \<open>validate_and_clean_phone\<close>) yields
  \<open>+41791234567\<close>, and \<open>validate_and_clean_phone\<close> applied directly to \<open>0791234567\<close>
  yields the same string.
\<close>

theorem C5_phone_round_trip:
  "validate_and_clean_phone (normalize_phone (Some ''+41 79 123 45 67'')) = Some ''+41791234567''
   \<and> validate_and_clean_phone (Some ''0791234567'') = Some ''+41791234567''"
  by (simp add: validate_and_clean_phone_def normalize_phone_def truthy_def startswith_def
      remove_char_def py_strip_def py_isspace_char_def is_ascii_digit_def Let_def)


text \<open>
  C6, as amended. The payload builder checks only that the stored birth date splits at dots
  into exactly three parts. A date of the shape \<open>DD.MM.YYYY\<close> is sent as \<open>YYYY-MM-DD\<close>;
  any three parts \<open>d.m.y\<close> are sent as \<open>y-m-d\<close> with month and day zero-padded to width
  two; and the \<open>dateOfBirth\<close> key is absent exactly when the birth date is empty or does
  not have three dot-separated parts.
\<close>

theorem C6_birth_date_amended:
  "(is_ddmmyyyy s \<and> birth_date c = Some s \<longrightarrow>
      map_of (build_ghl_contact_payload c) ''dateOfBirth''
        = Some (drop 6 s @ ''-'' @ take 2 (drop 3 s) @ ''-'' @ take 2 s))
   \<and> (truthy (birth_date c) \<and> split_on (CHR ''.'') (the (birth_date c)) = [d, m, y] \<longrightarrow>
      map_of (build_ghl_contact_payload c) ''dateOfBirth''
        = Some (y @ ''-'' @ zfill m 2 @ ''-'' @ zfill d 2))
   \<and> (map_of (build_ghl_contact_payload c) ''dateOfBirth'' = None \<longleftrightarrow>
        (\<not> truthy (birth_date c) \<or> length (split_on (CHR ''.'') (the (birth_date c))) \<noteq> 3))"
proof (intro conjI impI)
  assume a: "is_ddmmyyyy s \<and> birth_date c = Some s"
  then have len: "length s = 10" by (simp add: is_ddmmyyyy_def)
  have t: "truthy (birth_date c)" using a len by (auto simp: truthy_def)
  have sp: "split_on (CHR ''.'') (the (birth_date c)) = [take 2 s, take 2 (drop 3 s), drop 6 s]"
    using a split_ddmmyyyy by simp
  have z: "zfill (take 2 s) 2 = take 2 s" "zfill (take 2 (drop 3 s)) 2 = take 2 (drop 3 s)"
    using len by (simp_all add: zfill_def)
  show "map_of (build_ghl_contact_payload c) ''dateOfBirth''
        = Some (drop 6 s @ ''-'' @ take 2 (drop 3 s) @ ''-'' @ take 2 s)"
    by (simp only: payload_dob dob_three [OF t sp] z)
next
  assume "truthy (birth_date c) \<and> split_on (CHR ''.'') (the (birth_date c)) = [d, m, y]"
  then show "map_of (build_ghl_contact_payload c) ''dateOfBirth''
        = Some (y @ ''-'' @ zfill m 2 @ ''-'' @ zfill d 2)"
    by (simp only: payload_dob dob_three)
next
  show "map_of (build_ghl_contact_payload c) ''dateOfBirth'' = None \<longleftrightarrow>
        (\<not> truthy (birth_date c) \<or> length (split_on (CHR ''.'') (the (birth_date c))) \<noteq> 3)"
    by (simp only: payload_dob dob_none_iff)
qed

text \<open>
  C6, witness: the amended statement at \<open>15.03.1990\<close>, \<open>1.2.1990\<close> and \<open>1990-03-15\<close>.
\<close>

theorem C6_birth_date_amended_witness:
  "is_ddmmyyyy ''15.03.1990''
   \<and> birth_date (blank_contact\<lparr>birth_date := Some ''15.03.1990''\<rparr>) = Some ''15.03.1990''
   \<and> truthy (Some ''1.2.1990'')
   \<and> split_on (CHR ''.'') ''1.2.1990'' = [''1'', ''2'', ''1990'']
   \<and> map_of (build_ghl_contact_payload (blank_contact\<lparr>birth_date := Some ''15.03.1990''\<rparr>))
        ''dateOfBirth'' = Some ''1990-03-15''
   \<and> map_of (build_ghl_contact_payload (blank_contact\<lparr>birth_date := Some ''1.2.1990''\<rparr>))
        ''dateOfBirth'' = Some ''1990-02-01''
   \<and> map_of (build_ghl_contact_payload (blank_contact\<lparr>birth_date := Some ''1990-03-15''\<rparr>))
        ''dateOfBirth'' = None"
  using C6_birth_date_amended [of "''15.03.1990''" "blank_contact\<lparr>birth_date := Some ''15.03.1990''\<rparr>" "''15''" "''03''" "''1990''"]
    C6_birth_date_amended [of "''x''" "blank_contact\<lparr>birth_date := Some ''1.2.1990''\<rparr>" "''1''" "''2''" "''1990''"]
    C6_birth_date_amended [of "''x''" "blank_contact\<lparr>birth_date := Some ''1990-03-15''\<rparr>" "''1''" "''2''" "''1990''"]
  by (simp add: is_ddmmyyyy_def is_ascii_digit_def truthy_def zfill_def)

text \<open>
  C6, counterexample to the claim as stated: \<open>ab.cd.ef\<close> is not of the shape
  \<open>DD.MM.YYYY\<close>, yet the payload carries \<open>dateOfBirth = ef-cd-ab\<close>.
\<close>

theorem C6_malformed_date_counterexample:
  "\<not> is_ddmmyyyy ''ab.cd.ef''
   \<and> map_of (build_ghl_contact_payload (blank_contact\<lparr>birth_date := Some ''ab.cd.ef''\<rparr>))
        ''dateOfBirth'' = Some ''ef-cd-ab''"
  by (simp add: is_ddmmyyyy_def payload_dob date_of_birth_def truthy_def zfill_def)

section \<open>Rate limiter\<close>

lemma admissions_error: "wait now self = Inl e \<Longrightarrow> admissions n now self = []"
  by (cases n) simp_all

lemma admissions_add:
  "admissions (m + n) now self =
     admissions m now self @ admissions n (fst (after m (now, self))) (snd (after m (now, self)))"
proof (induction m arbitrary: now self)
  case 0
  show ?case by simp
next
  case (Suc m)
  show ?case
  proof (cases "wait now self")
    case (Inl e)
    then show ?thesis by (simp add: admissions_error)
  next
    case (Inr p)
    then show ?thesis using Suc.IH by (cases p) simp
  qed
qed

lemma ring_update:
  "k < R \<Longrightarrow> (replicate k new @ replicate (R - k) old)[k := new]
     = replicate (Suc k) new @ replicate (R - Suc k) (old::rat)"
proof -
  assume "k < R"
  then obtain m where m: "R - k = Suc m" by (cases "R - k") auto
  then have "R - Suc k = m" by simp
  then show ?thesis using m
    by (simp add: list_update_append replicate_append_same)
qed

lemma ring_nth: "k < R \<Longrightarrow> (replicate k new @ replicate (R - k) old) ! k = (old::rat)"
  by (simp add: nth_append)

lemma wait_ring:
  assumes "k < R" and "max now (old + 1 / of_nat R) = new"
  shows "wait now (ring R k old new) = Inr (new, ring R (Suc k) old new)"
proof -
  have idx: "index (ring R k old new) = k" using assms(1) by (simp add: ring_def)
  have len: "length (last_called (ring R k old new)) = R" using assms(1) by (simp add: ring_def)
  have slot: "last_called (ring R k old new) ! k = old"
    using assms(1) by (simp add: ring_def ring_nth)
  have st: "(if now - old < 1 / of_nat R then now + (1 / of_nat R - (now - old)) else now) = new"
    using assms(2) by (auto simp: max_def split: if_splits)
  have upd: "(ring R k old new)\<lparr> last_called := (last_called (ring R k old new))[k := new],
                  index := (k + 1) mod R \<rparr> = ring R (Suc k) old new"
    using assms(1) by (simp add: ring_def ring_update)
  have mi: "min_interval (ring R k old new) = 1 / of_nat R"
    and mc: "max_calls (ring R k old new) = R" by (simp_all add: ring_def)
  show ?thesis
    unfolding wait_def Let_def idx slot mi mc st len upd using assms(1) by simp
qed

lemma ring_full: "ring R R old new = ring R 0 new x"
  by (simp add: ring_def)

lemma ring_zero: "ring R 0 old a = ring R 0 old b"
  by (simp add: ring_def)

lemma admissions_ring:
  assumes "old + 1 / of_nat R \<le> new"
  shows "max now (old + 1 / of_nat R) = new \<Longrightarrow> k + j \<le> R \<Longrightarrow>
     admissions j now (ring R k old new) = replicate j new
     \<and> (0 < j \<longrightarrow> after j (now, ring R k old new) = (new, ring R (k + j) old new))"
proof (induction j arbitrary: k now)
  case 0
  show ?case by simp
next
  case (Suc j)
  from Suc.prems have k: "k < R" and kj: "Suc k + j \<le> R" by simp_all
  have w: "wait now (ring R k old new) = Inr (new, ring R (Suc k) old new)"
    using wait_ring [OF k Suc.prems(1)] .
  have m: "max new (old + 1 / of_nat R) = new" using assms by (simp add: max_def)
  from Suc.IH [OF m kj] w show ?case by (cases j) simp_all
qed

lemma round_ring:
  assumes "0 < R" and "old + 1 / of_nat R \<le> new" and "max now (old + 1 / of_nat R) = new"
  shows "admissions R now (ring R 0 old new) = replicate R new"
    and "after R (now, ring R 0 old new) = (new, ring R 0 new x)"
  using admissions_ring [OF assms(2) assms(3), of 0 R] assms(1) ring_full [of R old new x]
  by simp_all

lemma div_shift: "0 < R \<Longrightarrow> R \<le> i \<Longrightarrow> i div R = Suc ((i - R) div R)"
  by (simp add: le_div_geq)

lemma rounds_ring:
  assumes "0 < R"
  shows "length (admissions (R * q) t (ring R 0 t x)) = R * q
     \<and> (\<forall>i < R * q. admissions (R * q) t (ring R 0 t x) ! i
            = t + (of_nat (i div R) + 1) / of_nat R)"
proof (induction q arbitrary: t x)
  case 0
  show ?case by simp
next
  case (Suc q)
  let ?n = "t + 1 / of_nat R"
  have m: "max t (t + 1 / of_nat R) = ?n" using assms by (simp add: max_def)
  have z: "ring R 0 t x = ring R 0 t ?n" by (rule ring_zero)
  have r1: "admissions R t (ring R 0 t x) = replicate R ?n"
    and r2: "after R (t, ring R 0 t x) = (?n, ring R 0 ?n x)"
    unfolding z using round_ring(1) [OF assms _ m] round_ring(2) [OF assms _ m, of x] by simp_all
  have split: "admissions (R * Suc q) t (ring R 0 t x)
      = replicate R ?n @ admissions (R * q) ?n (ring R 0 ?n x)"
    using admissions_add [of R "R * q" t "ring R 0 t x"] r1 r2 by simp
  have len: "length (admissions (R * Suc q) t (ring R 0 t x)) = R * Suc q"
    using Suc.IH [of ?n x] split by simp
  have nth: "admissions (R * Suc q) t (ring R 0 t x) ! i = t + (of_nat (i div R) + 1) / of_nat R"
    if i: "i < R * Suc q" for i
  proof (cases "i < R")
    case True
    then show ?thesis using split by (simp add: nth_append)
  next
    case False
    then have ge: "R \<le> i" by simp
    with i have "i - R < R * q" by simp
    with Suc.IH [of ?n x] have
      "admissions (R * q) ?n (ring R 0 ?n x) ! (i - R) = ?n + (of_nat ((i - R) div R) + 1) / of_nat R"
      by blast
    moreover have "admissions (R * Suc q) t (ring R 0 t x) ! i
        = admissions (R * q) ?n (ring R 0 ?n x) ! (i - R)"
      using split False by (simp add: nth_append)
    ultimately show ?thesis
      using div_shift [OF assms ge] by (simp add: add_divide_distrib)
  qed
  from len nth show ?case by blast
qed

lemma dispatch_nth:
  assumes "0 < R" and "1 / of_nat R \<le> start"
  shows "length (dispatch_timestamps R (R * Suc q) start) = R * Suc q"
    and "i < R * Suc q \<Longrightarrow>
         dispatch_timestamps R (R * Suc q) start ! i = start + of_nat (i div R) / of_nat R"
proof -
  have init: "RateLimiter R = Inr (ring R 0 0 start)"
    using assms(1) by (simp add: RateLimiter_def ring_def)
  have m: "max start (0 + 1 / of_nat R) = start" using assms(2) by (simp add: max_def)
  have le: "0 + 1 / of_nat R \<le> start" using assms(2) by simp
  have r1: "admissions R start (ring R 0 0 start) = replicate R start"
    and r2: "after R (start, ring R 0 0 start) = (start, ring R 0 start x)" for x
    using round_ring(1) [OF assms(1) le m] round_ring(2) [OF assms(1) le m, of x] by simp_all
  have split: "dispatch_timestamps R (R * Suc q) start
      = replicate R start @ admissions (R * q) start (ring R 0 start 0)"
    using admissions_add [of R "R * q" start "ring R 0 0 start"] r1 r2 [of 0] init
    by (simp add: dispatch_timestamps_def)
  note rr = rounds_ring [OF assms(1), of q start 0]
  show "length (dispatch_timestamps R (R * Suc q) start) = R * Suc q"
    using split rr by simp
  show "dispatch_timestamps R (R * Suc q) start ! i = start + of_nat (i div R) / of_nat R"
    if i: "i < R * Suc q"
  proof (cases "i < R")
    case True
    then show ?thesis using split by (simp add: nth_append)
  next
    case False
    then have ge: "R \<le> i" by simp
    with i have "i - R < R * q" by simp
    with rr have "admissions (R * q) start (ring R 0 start 0) ! (i - R)
        = start + (of_nat ((i - R) div R) + 1) / of_nat R" by blast
    then show ?thesis
      using split False div_shift [OF assms(1) ge] by (simp add: nth_append)
  qed
qed

text \<open>
  C1. The claim is that 100 admissions through \<open>RateLimiter(10)\<close> take at least 9.9 seconds
  from the first to the last. On the code they do not: a slot is reused every 10th
  admission and only has to be \<open>1/10\<close> second old, so with workers that are always ready
  and the clock starting at 1700000000, the 100 admissions are all made within 0.9
  seconds (ten bursts of ten).
\<close>

theorem C1_rate_limiter_burst:
  "length (dispatch_timestamps 10 100 1700000000) = 100
   \<and> dispatch_timestamps 10 100 1700000000 ! 99 - dispatch_timestamps 10 100 1700000000 ! 0 = 9 / 10
   \<and> dispatch_timestamps 10 100 1700000000 ! 99 - dispatch_timestamps 10 100 1700000000 ! 0 < 99 / 10"
proof -
  have a: "(0::nat) < 10" and b: "1 / of_nat 10 \<le> (1700000000::rat)" by simp_all
  have e: "10 * Suc 9 = (100::nat)" by simp
  from dispatch_nth(1) [OF a b, of 9] dispatch_nth(2) [OF a b, of 99 9] dispatch_nth(2) [OF a b, of 0 9]
  show ?thesis unfolding e by simp
qed

section \<open>Retry policy of the outbound writes\<close>















section \<open>Token refresh\<close>

lemma refresh_failure_keeps:
  "\<not> fst (fst (refresh_ghl_token creds post save_error)) \<Longrightarrow>
   snd (refresh_ghl_token creds post save_error) = creds"
  by (auto simp: refresh_ghl_token_def
      split: list.splits token_outcome.splits sum.splits option.splits if_splits)

lemma refresh_failure_cases:
  "creds = [] \<or> refresh_token (hd creds) = [] \<or> token_call_failed post \<Longrightarrow>
   \<not> fst (fst (refresh_ghl_token creds post save_error))"
  by (auto simp: refresh_ghl_token_def token_call_failed_def
      split: list.splits token_outcome.splits sum.splits option.splits if_splits)

lemma refresh_keeps_refresh_token:
  "fst (fst (refresh_ghl_token creds (TokenResponse code t (Inr d)) save_error)) \<Longrightarrow>
   r_refresh_token d = Absent \<Longrightarrow>
   map refresh_token (snd (refresh_ghl_token creds (TokenResponse code t (Inr d)) save_error))
     = map refresh_token creds"
  by (auto simp: refresh_ghl_token_def jget_default_def
      split: list.splits option.splits if_splits)


text \<open>
  C9. Whenever \<open>refresh_ghl_token\<close> fails it returns \<open>False\<close> with a message and the
  stored credentials are unchanged: this covers no stored credentials, an empty refresh
  token, a non-200 answer, a request exception and an unparsable answer. On a successful
  refresh whose answer has no \<open>refresh_token\<close> member, the stored refresh token is kept.
\<close>

theorem C9_refresh_failure_leaves_credentials:
  "(creds = [] \<or> refresh_token (hd creds) = [] \<or> token_call_failed post \<longrightarrow>
      \<not> fst (fst (refresh_ghl_token creds post save_error)))
   \<and> (\<not> fst (fst (refresh_ghl_token creds post save_error)) \<longrightarrow>
      snd (refresh_ghl_token creds post save_error) = creds)
   \<and> (post = TokenResponse code t (Inr d) \<and> r_refresh_token d = Absent
       \<and> fst (fst (refresh_ghl_token creds post save_error)) \<longrightarrow>
      map refresh_token (snd (refresh_ghl_token creds post save_error))
        = map refresh_token creds)"
  using refresh_failure_cases [of creds post save_error]
    refresh_failure_keeps [of creds post save_error]
    refresh_keeps_refresh_token [of creds code t d save_error]
  by blast

text \<open>
  C9, witness: a 401 answer leaves the stored row as it was; a 200 answer carrying only a
  new access token stores the new access token and keeps the refresh token.
\<close>

theorem C9_refresh_failure_leaves_credentials_witness:
  "token_call_failed (TokenResponse 401 ''denied'' (Inl ''no json''))
   \<and> \<not> fst (fst (refresh_ghl_token creds0 (TokenResponse 401 ''denied'' (Inl ''no json'')) None))
   \<and> snd (refresh_ghl_token creds0 (TokenResponse 401 ''denied'' (Inl ''no json'')) None) = creds0
   \<and> r_refresh_token token_only = Absent
   \<and> fst (fst (refresh_ghl_token creds0 (TokenResponse 200 ''ok'' (Inr token_only)) None))
   \<and> map refresh_token (snd (refresh_ghl_token creds0 (TokenResponse 200 ''ok'' (Inr token_only)) None))
        = [''ref'']
   \<and> map access_token (snd (refresh_ghl_token creds0 (TokenResponse 200 ''ok'' (Inr token_only)) None))
        = [''new'']"
proof -
  have f: "token_call_failed (TokenResponse 401 ''denied'' (Inl ''no json''))"
    by (simp add: token_call_failed_def)
  have a: "r_refresh_token token_only = Absent" by (simp add: token_only_def)
  have ok: "fst (fst (refresh_ghl_token creds0 (TokenResponse 200 ''ok'' (Inr token_only)) None))"
    by (simp add: refresh_ghl_token_def creds0_def token_only_def jget_def jget_default_def)
  have acc: "map access_token (snd (refresh_ghl_token creds0 (TokenResponse 200 ''ok'' (Inr token_only)) None))
        = [''new'']"
    by (simp add: refresh_ghl_token_def creds0_def token_only_def jget_def jget_default_def)
  have r0: "map refresh_token creds0 = [''ref'']" by (simp add: creds0_def)
  from C9_refresh_failure_leaves_credentials
         [of creds0 "TokenResponse 401 ''denied'' (Inl ''no json'')" None 401 "''denied''" token_only]
       C9_refresh_failure_leaves_credentials
         [of creds0 "TokenResponse 200 ''ok'' (Inr token_only)" None 200 "''ok''" token_only]
       f a ok acc r0
  show ?thesis by simp
qed

section \<open>Facts about the result of the patient sync\<close>



lemma task_of_raise:
  "snd (sync_patients_body rows creds fetch faults ghl) = Inl e \<Longrightarrow>
   sync_patients_incremental rows creds fetch faults ghl
     = (fst (sync_patients_body rows creds fetch faults ghl),
        \<lparr> r_status = ''error'', r_message = ''Error in incremental patient sync: '' @ e,
          r_total = None, r_created = None, r_updated = None, r_synced_to_ghl = None \<rparr>)"
  by (cases "sync_patients_body rows creds fetch faults ghl")
     (simp add: sync_patients_incremental_def)

lemma task_of_return:
  "snd (sync_patients_body rows creds fetch faults ghl) = Inr r \<Longrightarrow>
   sync_patients_incremental rows creds fetch faults ghl
     = (fst (sync_patients_body rows creds fetch faults ghl), r)"
  by (cases "sync_patients_body rows creds fetch faults ghl")
     (simp add: sync_patients_incremental_def)

section \<open>Facts about the ContactSync table\<close>

lemma extends_keeping_nth:
  "extends_keeping rows rows' \<longleftrightarrow>
     length rows \<le> length rows' \<and> (\<forall>i < length rows. kept (rows ! i) (rows' ! i))"
  by (auto simp: extends_keeping_def list_all2_conv_all_nth)

lemma kept_refl: "kept r r"
  by (simp add: kept_def)

lemma kept_trans: "kept a b \<Longrightarrow> kept b c \<Longrightarrow> kept a c"
  by (auto simp: kept_def)

lemma extends_keeping_refl: "extends_keeping rows rows"
  by (simp add: extends_keeping_nth kept_refl)

lemma extends_keeping_trans:
  "extends_keeping a b \<Longrightarrow> extends_keeping b c \<Longrightarrow> extends_keeping a c"
  unfolding extends_keeping_nth
  by (meson kept_trans le_trans less_le_trans)

lemma extends_keeping_map:
  "(\<And>r. r \<in> set rows \<Longrightarrow> kept r (g r)) \<Longrightarrow> extends_keeping rows (map g rows)"
  by (simp add: extends_keeping_nth)

lemma extends_keeping_append: "extends_keeping rows (rows @ extra)"
  by (simp add: extends_keeping_nth nth_append kept_refl)

lemma bulk_create_appends: "\<exists>extra. bulk_create_contacts cs rows = rows @ extra"
proof (induction cs arbitrary: rows)
  case Nil
  show ?case by simp
next
  case (Cons c cs)
  show ?case
  proof (cases "contact_conflict c rows")
    case True
    then show ?thesis using Cons.IH [of rows] by simp
  next
    case False
    from Cons.IH [of "rows @ [c\<lparr> pk := Some (next_pk (map pk rows)) \<rparr>]"]
    obtain extra where
      "bulk_create_contacts cs (rows @ [c\<lparr> pk := Some (next_pk (map pk rows)) \<rparr>])
         = (rows @ [c\<lparr> pk := Some (next_pk (map pk rows)) \<rparr>]) @ extra" by blast
    with False show ?thesis by simp
  qed
qed

lemma bulk_create_keeps: "extends_keeping rows (bulk_create_contacts cs rows)"
  using bulk_create_appends [of cs rows] extends_keeping_append by metis

lemma save_keeps:
  "save_ghl_contact_id key gid rows = Some rows' \<Longrightarrow> extends_keeping rows rows'"
  by (auto simp: save_ghl_contact_id_def kept_def split: if_splits intro!: extends_keeping_map)

lemma save_length:
  "save_ghl_contact_id key gid rows = Some rows' \<Longrightarrow> length rows' = length rows"
  by (auto simp: save_ghl_contact_id_def split: if_splits)

lemma ghl_loop_keeps:
  "extends_keeping rows (fst (contacts_ghl_loop creds ghl i cs (rows, n)))"
proof (induction cs arbitrary: rows n i)
  case Nil
  show ?case by (simp add: extends_keeping_refl)
next
  case (Cons c cs)
  show ?case
  proof (cases "extract_id ''contact'' (fst (create_ghl_contact creds (ghl i)))")
    case None
    then show ?thesis using Cons.IH by simp
  next
    case (Some gid)
    show ?thesis
    proof (cases "save_ghl_contact_id (pk c) gid rows")
      case None
      with Some show ?thesis using Cons.IH by simp
    next
      case (Some rows')
      have "extends_keeping rows (fst (contacts_ghl_loop creds ghl (Suc i) cs (rows', Suc n)))"
        using save_keeps [OF Some] Cons.IH extends_keeping_trans by blast
      with Some \<open>extract_id _ _ = Some gid\<close> show ?thesis by simp
    qed
  qed
qed

lemma ghl_loop_length:
  "length (fst (contacts_ghl_loop creds ghl i cs (rows, n))) = length rows"
proof (induction cs arbitrary: rows n i)
  case Nil
  show ?case by simp
next
  case (Cons c cs)
  show ?case
  proof (cases "extract_id ''contact'' (fst (create_ghl_contact creds (ghl i)))")
    case None
    then show ?thesis using Cons.IH by simp
  next
    case (Some gid)
    show ?thesis
    proof (cases "save_ghl_contact_id (pk c) gid rows")
      case None
      with Some show ?thesis using Cons.IH by simp
    next
      case (Some rows')
      with \<open>extract_id _ _ = Some gid\<close> Cons.IH save_length [OF Some]
      show ?thesis by simp
    qed
  qed
qed

section \<open>Facts about the patient loop\<close>

lemma existing_contacts_SomeD:
  "existing_contacts rows k = Some c \<Longrightarrow> c \<in> set rows \<and> ephysio_patient_id c = Some k"
proof -
  assume "existing_contacts rows k = Some c"
  then have "(k, c) \<in> set (List.map_filter (\<lambda>c. map_option (\<lambda>k. (k, c)) (ephysio_patient_id c)) rows)"
    unfolding existing_contacts_def by (auto dest: map_of_SomeD)
  then show ?thesis by (auto simp: List.map_filter_def)
qed

lemma existing_contacts_dom:
  "r \<in> set rows \<Longrightarrow> ephysio_patient_id r = Some k \<Longrightarrow> k \<in> dom (existing_contacts rows)"
proof -
  assume r: "r \<in> set rows" and k: "ephysio_patient_id r = Some k"
  then have "(k, r) \<in> set (List.map_filter (\<lambda>c. map_option (\<lambda>k. (k, c)) (ephysio_patient_id c)) rows)"
    by (force simp: List.map_filter_def)
  then have "k \<in> fst ` set (rev (List.map_filter (\<lambda>c. map_option (\<lambda>k. (k, c)) (ephysio_patient_id c)) rows))"
    by force
  then show ?thesis unfolding existing_contacts_def by (simp add: dom_map_of_conv_image_fst)
qed

lemma step_dom: "dom (existing (patient_step p st)) = dom (existing st)"
  by (auto simp: patient_step_def Let_def split: option.splits if_splits)

lemma step_create:
  "contacts_to_create (patient_step p st) =
     contacts_to_create st @
       (if py_str (p_id p) \<noteq> [] \<and> existing st (py_str (p_id p)) = None
        then [contact_from_patient (py_str (p_id p)) p] else [])"
  by (auto simp: patient_step_def Let_def split: option.splits)

lemma fold_dom: "dom (existing (fold patient_step ps st)) = dom (existing st)"
  by (induction ps arbitrary: st) (simp_all add: step_dom)

lemma fold_create_mono:
  "set (contacts_to_create st) \<subseteq> set (contacts_to_create (fold patient_step ps st))"
proof (induction ps arbitrary: st)
  case Nil
  show ?case by simp
next
  case (Cons p ps)
  have "set (contacts_to_create st) \<subseteq> set (contacts_to_create (patient_step p st))"
    by (simp add: step_create)
  with Cons.IH [of "patient_step p st"] show ?case by auto
qed

lemma fold_create_none:
  "(\<And>p. p \<in> set ps \<Longrightarrow> py_str (p_id p) \<noteq> [] \<Longrightarrow> py_str (p_id p) \<in> dom (existing st)) \<Longrightarrow>
   contacts_to_create (fold patient_step ps st) = contacts_to_create st"
proof (induction ps arbitrary: st)
  case Nil
  show ?case by simp
next
  case (Cons p ps)
  have a: "contacts_to_create (patient_step p st) = contacts_to_create st"
    using Cons.prems [of p] by (auto simp: step_create)
  have "contacts_to_create (fold patient_step ps (patient_step p st))
        = contacts_to_create (patient_step p st)"
    by (rule Cons.IH) (use Cons.prems in \<open>simp add: step_dom\<close>)
  with a show ?case by simp
qed

lemma fold_create_covers:
  "p \<in> set ps \<Longrightarrow> py_str (p_id p) \<noteq> [] \<Longrightarrow>
   py_str (p_id p) \<in> dom (existing st)
   \<or> (\<exists>c \<in> set (contacts_to_create (fold patient_step ps st)).
         ephysio_patient_id c = Some (py_str (p_id p)))"
proof (induction ps arbitrary: st)
  case Nil
  then show ?case by simp
next
  case (Cons q ps)
  show ?case
  proof (cases "p = q")
    case True
    show ?thesis
    proof (cases "existing st (py_str (p_id p))")
      case None
      then have "contact_from_patient (py_str (p_id p)) p \<in> set (contacts_to_create (patient_step q st))"
        using True Cons.prems(2) by (simp add: step_create)
      with fold_create_mono [of "patient_step q st" ps]
      have "contact_from_patient (py_str (p_id p)) p
              \<in> set (contacts_to_create (fold patient_step (q # ps) st))" by auto
      moreover have "ephysio_patient_id (contact_from_patient (py_str (p_id p)) p)
          = Some (py_str (p_id p))" by (simp add: contact_from_patient_def)
      ultimately show ?thesis by blast
    next
      case (Some c)
      then show ?thesis by auto
    qed
  next
    case False
    with Cons.prems have "p \<in> set ps" by simp
    from Cons.IH [OF this Cons.prems(2), of "patient_step q st"] show ?thesis
      by (simp add: step_dom)
  qed
qed

lemma fold_create_unlinked:
  "(\<And>c. c \<in> set (contacts_to_create st) \<Longrightarrow> ghl_contact_id c = None) \<Longrightarrow>
   c \<in> set (contacts_to_create (fold patient_step ps st)) \<Longrightarrow> ghl_contact_id c = None"
proof (induction ps arbitrary: st)
  case Nil
  then show ?case by simp
next
  case (Cons p ps)
  show ?case
  proof (rule Cons.IH [of "patient_step p st"])
    fix d assume "d \<in> set (contacts_to_create (patient_step p st))"
    then show "ghl_contact_id d = None"
      using Cons.prems(1) by (auto simp: step_create contact_from_patient_def split: if_splits)
  next
    from Cons.prems(2) show "c \<in> set (contacts_to_create (fold patient_step ps (patient_step p st)))"
      by simp
  qed
qed

lemma kept_update: "kept obj (update_from_patient p obj)"
  by (simp add: kept_def update_from_patient_def)

lemma step_origin:
  assumes "\<And>k obj. existing st k = Some obj \<Longrightarrow> \<exists>row \<in> set rows. kept row obj"
    and "existing (patient_step p st) k = Some obj"
  shows "\<exists>row \<in> set rows. kept row obj"
proof (cases "py_str (p_id p) \<noteq> [] \<and> k = py_str (p_id p) \<and> existing st k \<noteq> None")
  case True
  then obtain old where old: "existing st k = Some old" by auto
  with True assms(2) have "obj = update_from_patient p old"
    by (simp add: patient_step_def Let_def)
  with assms(1) [OF old] kept_update [of old p] show ?thesis
    by (blast intro: kept_trans)
next
  case False
  with assms(2) have "existing st k = Some obj"
    by (auto simp: patient_step_def Let_def split: option.splits if_splits)
  then show ?thesis by (rule assms(1))
qed

lemma fold_origin:
  "(\<And>k obj. existing st k = Some obj \<Longrightarrow> \<exists>row \<in> set rows. kept row obj) \<Longrightarrow>
   existing (fold patient_step ps st) k = Some obj \<Longrightarrow> \<exists>row \<in> set rows. kept row obj"
proof (induction ps arbitrary: st)
  case Nil
  then show ?case by simp
next
  case (Cons p ps)
  show ?case
  proof (rule Cons.IH [of "patient_step p st"])
    fix k' obj' assume "existing (patient_step p st) k' = Some obj'"
    then show "\<exists>row \<in> set rows. kept row obj'"
      using step_origin [of st rows p k' obj'] Cons.prems(1) by blast
  next
    from Cons.prems(2) show "existing (fold patient_step ps (patient_step p st)) k = Some obj"
      by simp
  qed
qed

lemma run_origin:
  assumes "existing (patient_loop_run patients rows) k = Some obj"
  shows "\<exists>row \<in> set rows. kept row obj"
proof -
  let ?st0 = "\<lparr> existing = existing_contacts rows, contacts_to_create = [],
         contacts_to_update = [], contacts_to_sync_to_ghl = [] \<rparr>"
  have init: "\<exists>row \<in> set rows. kept row obj'" if "existing ?st0 k' = Some obj'" for k' obj'
    using that existing_contacts_SomeD [of rows k' obj'] kept_refl [of obj'] by auto
  have run: "existing (fold patient_step patients ?st0) k = Some obj"
    using assms by (simp add: patient_loop_run_def)
  show ?thesis
    by (rule fold_origin [of ?st0 rows patients k obj, OF init run])
qed

lemma bulk_update_keeps:
  assumes "distinct (map pk rows)"
    and "\<And>obj. obj \<in> set objs \<Longrightarrow> \<exists>row \<in> set rows. kept row obj"
  shows "extends_keeping rows (bulk_update_contacts objs rows)"
  unfolding bulk_update_contacts_def
proof (rule extends_keeping_map)
  fix r assume r: "r \<in> set rows"
  show "kept r (case find (\<lambda>obj. pk obj = pk r) objs of
                   None \<Rightarrow> r
                 | Some obj \<Rightarrow>
                     r\<lparr> phone := phone obj, email := email obj, first_name := first_name obj,
                          last_name := last_name obj, salutation := salutation obj,
                          street := street obj, zip_f := zip_f obj, city := city obj,
                          birth_date := birth_date obj, sex := sex obj, source := source obj \<rparr>)"
  proof (cases "find (\<lambda>obj. pk obj = pk r) objs")
    case None
    then show ?thesis by (simp add: kept_refl)
  next
    case (Some obj)
    then have o: "obj \<in> set objs" and p: "pk obj = pk r"
      by (auto simp: find_Some_iff)
    from assms(2) [OF o] obtain row where row: "row \<in> set rows" and k: "kept row obj" by blast
    from k p have "pk row = pk r" by (simp add: kept_def)
    with assms(1) row r have "row = r"
      by (meson distinct_map inj_onD)
    with k have "kept r obj" by simp
    with Some show ?thesis by (simp add: kept_def)
  qed
qed

lemma bulk_update_length: "length (bulk_update_contacts objs rows) = length rows"
  by (simp add: bulk_update_contacts_def)

lemma run_update_objs:
  "obj \<in> set (List.map_filter (existing (patient_loop_run patients rows)) ks) \<Longrightarrow>
   \<exists>row \<in> set rows. kept row obj"
  by (auto simp: List.map_filter_def dest: run_origin)

lemma persist_keeps:
  assumes "distinct (map pk rows)"
  shows "extends_keeping rows (fst (persist_contacts rows faults (patient_loop_run patients rows)))"
proof -
  let ?st = "patient_loop_run patients rows"
  let ?objs = "List.map_filter (existing ?st) (contacts_to_update ?st)"
  have u: "extends_keeping rows (bulk_update_contacts ?objs rows)"
    by (rule bulk_update_keeps [OF assms]) (rule run_update_objs)
  have c: "extends_keeping rows (bulk_create_contacts cs (bulk_update_contacts ?objs rows))" for cs
    by (rule extends_keeping_trans [OF u bulk_create_keeps])
  show ?thesis
  proof (cases "?objs = []")
    case True
    then show ?thesis
      by (simp add: persist_contacts_def Let_def extends_keeping_refl bulk_create_keeps)
  next
    case False
    then show ?thesis
      by (simp add: persist_contacts_def Let_def extends_keeping_refl u c)
  qed
qed

lemma dispatch_keeps: "extends_keeping rows2 (fst (dispatch_contacts creds ghl faults st rows2))"
  unfolding dispatch_contacts_def Let_def
  by (simp add: ghl_loop_keeps extends_keeping_refl)

lemma dispatch_length: "length (fst (dispatch_contacts creds ghl faults st rows2)) = length rows2"
  unfolding dispatch_contacts_def Let_def
  by (simp add: ghl_loop_length)

lemma body_fst_cases:
  "fst (sync_patients_body rows creds fetch faults ghl) = rows
   \<or> (\<exists>patients. fst (sync_patients_body rows creds fetch faults ghl)
              = fst (persist_contacts rows faults (patient_loop_run patients rows))
            \<or> fst (sync_patients_body rows creds fetch faults ghl)
              = fst (dispatch_contacts creds ghl faults (patient_loop_run patients rows)
                      (fst (persist_contacts rows faults (patient_loop_run patients rows)))))"
proof (cases fetch)
  case (Inl e)
  then show ?thesis by (simp add: sync_patients_body_def)
next
  case (Inr patients)
  show ?thesis
  proof (cases "patients = [] \<or> query_error faults \<noteq> None")
    case True
    with Inr show ?thesis by (auto simp: sync_patients_body_def)
  next
    case False
    obtain rows1 x where p: "persist_contacts rows faults (patient_loop_run patients rows) = (rows1, x)"
      by (cases "persist_contacts rows faults (patient_loop_run patients rows)")
    show ?thesis
    proof (cases x)
      case (Inl e)
      with Inr False p have "fst (sync_patients_body rows creds fetch faults ghl)
          = fst (persist_contacts rows faults (patient_loop_run patients rows))"
        by (auto simp: sync_patients_body_def)
      then show ?thesis by blast
    next
      case (Inr cu)
      obtain c u where cu: "cu = (c, u)" by (cases cu)
      obtain rows3 n where d: "dispatch_contacts creds ghl faults (patient_loop_run patients rows) rows1 = (rows3, n)"
        by (cases "dispatch_contacts creds ghl faults (patient_loop_run patients rows) rows1")
      from \<open>fetch = Inr patients\<close> False p Inr cu d
      have "fst (sync_patients_body rows creds fetch faults ghl)
          = fst (dispatch_contacts creds ghl faults (patient_loop_run patients rows)
                      (fst (persist_contacts rows faults (patient_loop_run patients rows))))"
        by (auto simp: sync_patients_body_def split: sum.splits)
      then show ?thesis by blast
    qed
  qed
qed

lemma body_keeps:
  assumes "distinct (map pk rows)"
  shows "extends_keeping rows (fst (sync_patients_body rows creds fetch faults ghl))"
proof -
  have a: "extends_keeping rows (fst (persist_contacts rows faults (patient_loop_run patients rows)))"
    for patients by (rule persist_keeps [OF assms])
  have b: "extends_keeping rows (fst (dispatch_contacts creds ghl faults (patient_loop_run patients rows)
                      (fst (persist_contacts rows faults (patient_loop_run patients rows)))))"
    for patients by (rule extends_keeping_trans [OF a dispatch_keeps])
  from body_fst_cases [of rows creds fetch faults ghl] show ?thesis
    using a b extends_keeping_refl [of rows] by auto
qed

lemma task_fst: "fst (sync_patients_incremental rows creds fetch faults ghl)
    = fst (sync_patients_body rows creds fetch faults ghl)"
proof -
  obtain rows' x where b: "sync_patients_body rows creds fetch faults ghl = (rows', x)"
    by (cases "sync_patients_body rows creds fetch faults ghl")
  then show ?thesis by (cases x) (simp_all add: sync_patients_incremental_def)
qed

lemma keeps_ids:
  assumes "extends_keeping rows rows'" and "r \<in> set rows" and "ephysio_patient_id r = Some k"
  shows "\<exists>r' \<in> set rows'. ephysio_patient_id r' = Some k"
proof -
  from assms(2) obtain i where i: "i < length rows" and r: "rows ! i = r"
    by (auto simp: in_set_conv_nth)
  from assms(1) i have "i < length rows'" and "kept (rows ! i) (rows' ! i)"
    by (auto simp: extends_keeping_nth)
  with r assms(3) have "rows' ! i \<in> set rows'" and "ephysio_patient_id (rows' ! i) = Some k"
    by (auto simp: kept_def)
  then show ?thesis by blast
qed

lemma bulk_create_mono:
  "r \<in> set rows \<Longrightarrow> r \<in> set (bulk_create_contacts cs rows)"
  using bulk_create_appends [of cs rows] by auto

lemma bulk_create_covers:
  "c \<in> set cs \<Longrightarrow> ghl_contact_id c = None \<Longrightarrow> ephysio_patient_id c = Some k \<Longrightarrow>
   \<exists>r \<in> set (bulk_create_contacts cs rows). ephysio_patient_id r = Some k"
proof (induction cs arbitrary: rows)
  case Nil
  then show ?case by simp
next
  case (Cons d cs)
  show ?case
  proof (cases "c = d")
    case True
    show ?thesis
    proof (cases "contact_conflict d rows")
      case conflict: True
      with True Cons.prems obtain r where "r \<in> set rows" and "ephysio_patient_id r = Some k"
        by (auto simp: contact_conflict_def list_ex_iff)
      with conflict bulk_create_mono [of r rows cs] show ?thesis by auto
    next
      case False
      let ?new = "d\<lparr> pk := Some (next_pk (map pk rows)) \<rparr>"
      have "?new \<in> set (rows @ [?new])" by simp
      from bulk_create_mono [OF this, of cs] False True Cons.prems(3)
      show ?thesis by (auto intro!: bexI [of _ ?new])
    qed
  next
    case False
    with Cons.prems have "c \<in> set cs" by simp
    from Cons.IH [OF this Cons.prems(2,3)] show ?thesis by simp
  qed
qed

lemma persist_success:
  assumes "snd (persist_contacts rows faults st) = Inr cu"
  shows "fst (persist_contacts rows faults st)
           = (if contacts_to_create st \<noteq> []
              then bulk_create_contacts (contacts_to_create st)
                     (if List.map_filter (existing st) (contacts_to_update st) \<noteq> []
                      then bulk_update_contacts
                             (List.map_filter (existing st) (contacts_to_update st)) rows
                      else rows)
              else (if List.map_filter (existing st) (contacts_to_update st) \<noteq> []
                    then bulk_update_contacts
                           (List.map_filter (existing st) (contacts_to_update st)) rows
                    else rows))"
    and "fst cu = length (contacts_to_create st)"
  using assms by (auto simp: persist_contacts_def Let_def split: if_splits)

lemma persist_no_create:
  assumes "contacts_to_create st = []"
  shows "length (fst (persist_contacts rows faults st)) = length rows"
    and "snd (persist_contacts rows faults st) = Inr cu \<Longrightarrow> fst cu = 0"
  using assms by (auto simp: persist_contacts_def Let_def bulk_update_length split: if_splits)

lemma body_success_shape:
  assumes "snd (sync_patients_body rows creds (Inr patients) faults ghl) = Inr res"
    and "patients \<noteq> []"
  shows "\<exists>cu. snd (persist_contacts rows faults (patient_loop_run patients rows)) = Inr cu
      \<and> fst (sync_patients_body rows creds (Inr patients) faults ghl)
           = fst (dispatch_contacts creds ghl faults (patient_loop_run patients rows)
                   (fst (persist_contacts rows faults (patient_loop_run patients rows))))
      \<and> r_created res = Some (fst cu)"
proof -
  from assms have q: "query_error faults = None"
    by (auto simp: sync_patients_body_def split: option.splits)
  obtain rows1 x where p: "persist_contacts rows faults (patient_loop_run patients rows) = (rows1, x)"
    by (cases "persist_contacts rows faults (patient_loop_run patients rows)")
  show ?thesis
  proof (cases x)
    case (Inl e)
    with assms q p show ?thesis by (simp add: sync_patients_body_def)
  next
    case (Inr cu)
    obtain c u where cu: "cu = (c, u)" by (cases cu)
    obtain rows3 n where d: "dispatch_contacts creds ghl faults (patient_loop_run patients rows) rows1 = (rows3, n)"
      by (cases "dispatch_contacts creds ghl faults (patient_loop_run patients rows) rows1")
    from assms q p Inr cu d show ?thesis
      by (auto simp: sync_patients_body_def split: sum.splits)
  qed
qed


lemma run_create_unlinked:
  "c \<in> set (contacts_to_create (patient_loop_run patients rows)) \<Longrightarrow> ghl_contact_id c = None"
  unfolding patient_loop_run_def
  by (rule fold_create_unlinked [where st = "\<lparr> existing = existing_contacts rows,
        contacts_to_create = [], contacts_to_update = [], contacts_to_sync_to_ghl = [] \<rparr>"
        and ps = patients]) simp_all

lemma run_create_covers:
  assumes "p \<in> set patients" and "py_str (p_id p) \<noteq> []"
  shows "py_str (p_id p) \<in> dom (existing_contacts rows)
    \<or> (\<exists>c \<in> set (contacts_to_create (patient_loop_run patients rows)).
          ephysio_patient_id c = Some (py_str (p_id p)))"
  using fold_create_covers [OF assms, of "\<lparr> existing = existing_contacts rows,
        contacts_to_create = [], contacts_to_update = [], contacts_to_sync_to_ghl = [] \<rparr>"]
  by (simp add: patient_loop_run_def)

lemma run_create_none:
  assumes "\<And>p. p \<in> set patients \<Longrightarrow> py_str (p_id p) \<noteq> [] \<Longrightarrow>
             py_str (p_id p) \<in> dom (existing_contacts rows)"
  shows "contacts_to_create (patient_loop_run patients rows) = []"
  using fold_create_none [of patients "\<lparr> existing = existing_contacts rows,
        contacts_to_create = [], contacts_to_update = [], contacts_to_sync_to_ghl = [] \<rparr>"] assms
  by (simp add: patient_loop_run_def)

lemma first_run_covers:
  assumes d: "distinct (map pk rows)"
    and ok: "snd (sync_patients_body rows creds (Inr patients) faults ghl) = Inr res"
    and p: "p \<in> set patients" and k: "py_str (p_id p) \<noteq> []"
  shows "py_str (p_id p)
           \<in> dom (existing_contacts (fst (sync_patients_body rows creds (Inr patients) faults ghl)))"
proof -
  let ?k = "py_str (p_id p)"
  let ?st = "patient_loop_run patients rows"
  let ?rows' = "fst (sync_patients_body rows creds (Inr patients) faults ghl)"
  from p have ne: "patients \<noteq> []" by auto
  from body_success_shape [OF ok ne] obtain cu where
    ps: "snd (persist_contacts rows faults ?st) = Inr cu"
    and shape: "?rows' = fst (dispatch_contacts creds ghl faults ?st (fst (persist_contacts rows faults ?st)))"
    by blast
  have "\<exists>r \<in> set ?rows'. ephysio_patient_id r = Some ?k"
  proof (cases "?k \<in> dom (existing_contacts rows)")
    case True
    then obtain obj where "existing_contacts rows ?k = Some obj" by auto
    from existing_contacts_SomeD [OF this] keeps_ids [OF body_keeps [OF d]]
    show ?thesis by blast
  next
    case False
    with run_create_covers [OF p k, of rows] obtain c where
      c: "c \<in> set (contacts_to_create ?st)" and e: "ephysio_patient_id c = Some ?k" by blast
    from c have nonempty: "contacts_to_create ?st \<noteq> []" by auto
    from bulk_create_covers [OF c run_create_unlinked [OF c] e]
      persist_success(1) [OF ps] nonempty
    obtain r where "r \<in> set (fst (persist_contacts rows faults ?st))"
      and "ephysio_patient_id r = Some ?k" by auto
    from keeps_ids [OF dispatch_keeps this] shape show ?thesis by simp
  qed
  then show ?thesis using existing_contacts_dom by blast
qed

lemma body_inr_cases:
  "fst (sync_patients_body rows creds (Inr patients) faults ghl) = rows
   \<or> fst (sync_patients_body rows creds (Inr patients) faults ghl)
        = fst (persist_contacts rows faults (patient_loop_run patients rows))
   \<or> fst (sync_patients_body rows creds (Inr patients) faults ghl)
        = fst (dispatch_contacts creds ghl faults (patient_loop_run patients rows)
                (fst (persist_contacts rows faults (patient_loop_run patients rows))))"
proof (cases "patients = [] \<or> query_error faults \<noteq> None")
  case True
  then show ?thesis by (auto simp: sync_patients_body_def)
next
  case False
  obtain rows1 x where p: "persist_contacts rows faults (patient_loop_run patients rows) = (rows1, x)"
    by (cases "persist_contacts rows faults (patient_loop_run patients rows)")
  show ?thesis
  proof (cases x)
    case (Inl e)
    with False p show ?thesis by (auto simp: sync_patients_body_def)
  next
    case (Inr cu)
    obtain c u where cu: "cu = (c, u)" by (cases cu)
    obtain rows3 n where d: "dispatch_contacts creds ghl faults (patient_loop_run patients rows) rows1 = (rows3, n)"
      by (cases "dispatch_contacts creds ghl faults (patient_loop_run patients rows) rows1")
    from False p Inr cu d show ?thesis by (auto simp: sync_patients_body_def split: sum.splits)
  qed
qed

lemma body_no_create:
  assumes "contacts_to_create (patient_loop_run patients rows) = []"
  shows "length (fst (sync_patients_body rows creds (Inr patients) faults ghl)) = length rows"
    and "snd (sync_patients_body rows creds (Inr patients) faults ghl) = Inr res \<Longrightarrow>
         r_created res = Some 0"
proof -
  let ?st = "patient_loop_run patients rows"
  have len: "length (fst (persist_contacts rows faults ?st)) = length rows"
    by (rule persist_no_create(1) [OF assms])
  show "length (fst (sync_patients_body rows creds (Inr patients) faults ghl)) = length rows"
    using body_inr_cases [of rows creds patients faults ghl] len
    by (auto simp: dispatch_length)
  show "r_created res = Some 0"
    if ok: "snd (sync_patients_body rows creds (Inr patients) faults ghl) = Inr res"
  proof (cases "patients = []")
    case True
    with ok show ?thesis by (auto simp: sync_patients_body_def)
  next
    case False
    from body_success_shape [OF ok False] obtain cu where
      "snd (persist_contacts rows faults ?st) = Inr cu" and "r_created res = Some (fst cu)"
      by blast
    with persist_no_create(2) [OF assms] show ?thesis by simp
  qed
qed

lemma step_update:
  "contacts_to_update (patient_step p st) =
     contacts_to_update st @
       (if py_str (p_id p) \<noteq> [] \<and> existing st (py_str (p_id p)) \<noteq> None
        then [py_str (p_id p)] else [])"
  by (auto simp: patient_step_def Let_def split: option.splits)

lemma fold_update:
  "contacts_to_update (fold patient_step ps st) =
     contacts_to_update st @
       filter (\<lambda>k. k \<noteq> [] \<and> k \<in> dom (existing st)) (map (\<lambda>p. py_str (p_id p)) ps)"
proof (induction ps arbitrary: st)
  case Nil
  show ?case by simp
next
  case (Cons p ps)
  have "contacts_to_update (fold patient_step (p # ps) st)
      = contacts_to_update (patient_step p st) @
          filter (\<lambda>k. k \<noteq> [] \<and> k \<in> dom (existing st)) (map (\<lambda>p. py_str (p_id p)) ps)"
    using Cons.IH [of "patient_step p st"] by (simp add: step_dom)
  then show ?case by (simp add: step_update domIff)
qed

lemma run_update:
  "contacts_to_update (patient_loop_run patients rows) =
     filter (\<lambda>k. k \<noteq> [] \<and> k \<in> dom (existing_contacts rows)) (map (\<lambda>p. py_str (p_id p)) patients)"
  by (simp add: patient_loop_run_def fold_update)

lemma run_dom: "dom (existing (patient_loop_run patients rows)) = dom (existing_contacts rows)"
  by (simp add: patient_loop_run_def fold_dom)

lemma map_filter_all_some:
  "set ks \<subseteq> dom f \<Longrightarrow> length (List.map_filter f ks) = length ks"
  by (induction ks) (auto simp: List.map_filter_def)

lemma run_update_objs_length:
  "length (List.map_filter (existing (patient_loop_run patients rows))
             (contacts_to_update (patient_loop_run patients rows)))
     = length (contacts_to_update (patient_loop_run patients rows))"
  by (rule map_filter_all_some) (auto simp: run_dom run_update)

lemma persist_success_updated:
  assumes "snd (persist_contacts rows faults st) = Inr cu"
  shows "snd cu = length (List.map_filter (existing st) (contacts_to_update st))"
  using assms by (auto simp: persist_contacts_def Let_def split: if_splits)

lemma body_success_updated:
  assumes "snd (sync_patients_body rows creds (Inr patients) faults ghl) = Inr res"
    and "patients \<noteq> []"
  shows "r_updated res
           = Some (length (contacts_to_update (patient_loop_run patients rows)))"
proof -
  from assms have q: "query_error faults = None"
    by (auto simp: sync_patients_body_def split: option.splits)
  obtain rows1 x where p: "persist_contacts rows faults (patient_loop_run patients rows) = (rows1, x)"
    by (cases "persist_contacts rows faults (patient_loop_run patients rows)")
  show ?thesis
  proof (cases x)
    case (Inl e)
    with assms q p show ?thesis by (simp add: sync_patients_body_def)
  next
    case (Inr cu)
    obtain c u where cu: "cu = (c, u)" by (cases cu)
    obtain rows3 n where d: "dispatch_contacts creds ghl faults (patient_loop_run patients rows) rows1 = (rows3, n)"
      by (cases "dispatch_contacts creds ghl faults (patient_loop_run patients rows) rows1")
    from p Inr have "snd (persist_contacts rows faults (patient_loop_run patients rows)) = Inr cu"
      by simp
    from persist_success_updated [OF this] cu run_update_objs_length [of patients rows]
    have "u = length (contacts_to_update (patient_loop_run patients rows))" by simp
    with assms q p Inr cu d show ?thesis
      by (auto simp: sync_patients_body_def split: sum.splits)
  qed
qed

section \<open>Incremental patient sync: idempotence\<close>

text \<open>
  C4. After a patient sync that completed, a second sync fed the same list of fetched
  patients puts every patient into the update partition: its update list is the list of
  the fetched ids (those that are not empty strings) and its create list is empty, so it
  adds no ContactSync row and, when it completes, reports \<open>created = 0\<close> and counts every
  such patient as updated. This holds whatever the CRM and the storage engine do during
  the second run. In any run, a fetched patient whose id keys a row of the table is in
  the update partition. The table is assumed to have distinct primary keys.
\<close>

theorem C4_second_run_creates_nothing:
  assumes "distinct (map pk rows)"
    and "r_status (snd (sync_patients_incremental rows creds (Inr patients) faults ghl)) = ''success''"
  shows
    "contacts_to_create
       (patient_loop_run patients
          (fst (sync_patients_incremental rows creds (Inr patients) faults ghl))) = []
     \<and> contacts_to_update
       (patient_loop_run patients
          (fst (sync_patients_incremental rows creds (Inr patients) faults ghl)))
         = filter (\<lambda>k. k \<noteq> []) (map (\<lambda>p. py_str (p_id p)) patients)
     \<and> length (fst (sync_patients_incremental
                      (fst (sync_patients_incremental rows creds (Inr patients) faults ghl))
                      creds' (Inr patients) faults' ghl'))
         = length (fst (sync_patients_incremental rows creds (Inr patients) faults ghl))
     \<and> (r_status (snd (sync_patients_incremental
                      (fst (sync_patients_incremental rows creds (Inr patients) faults ghl))
                      creds' (Inr patients) faults' ghl')) = ''success'' \<longrightarrow>
         r_created (snd (sync_patients_incremental
                      (fst (sync_patients_incremental rows creds (Inr patients) faults ghl))
                      creds' (Inr patients) faults' ghl')) = Some 0
         \<and> r_updated (snd (sync_patients_incremental
                      (fst (sync_patients_incremental rows creds (Inr patients) faults ghl))
                      creds' (Inr patients) faults' ghl'))
             = Some (length (filter (\<lambda>k. k \<noteq> []) (map (\<lambda>p. py_str (p_id p)) patients))))
     \<and> (p \<in> set patients \<and> py_str (p_id p) \<noteq> [] \<and> r0 \<in> set rows0
          \<and> ephysio_patient_id r0 = Some (py_str (p_id p)) \<longrightarrow>
         py_str (p_id p) \<in> set (contacts_to_update (patient_loop_run patients rows0)))"
proof -
  let ?rows1 = "fst (sync_patients_incremental rows creds (Inr patients) faults ghl)"
  let ?keys = "filter (\<lambda>k. k \<noteq> []) (map (\<lambda>p. py_str (p_id p)) patients)"
  have r1: "?rows1 = fst (sync_patients_body rows creds (Inr patients) faults ghl)"
    by (rule task_fst)
  obtain res where ok: "snd (sync_patients_body rows creds (Inr patients) faults ghl) = Inr res"
  proof (cases "snd (sync_patients_body rows creds (Inr patients) faults ghl)")
    case (Inl e)
    from task_of_raise [OF this] assms(2) show ?thesis by simp
  next
    case (Inr r)
    then show ?thesis by (rule that)
  qed
  have covers: "py_str (p_id q) \<in> dom (existing_contacts ?rows1)"
    if "q \<in> set patients" and "py_str (p_id q) \<noteq> []" for q
    unfolding r1 by (rule first_run_covers [OF assms(1) ok that])
  have none: "contacts_to_create (patient_loop_run patients ?rows1) = []"
    by (rule run_create_none) (rule covers)
  have upd: "contacts_to_update (patient_loop_run patients ?rows1) = ?keys"
  proof -
    have "(k \<noteq> [] \<and> k \<in> dom (existing_contacts ?rows1)) = (k \<noteq> [])"
      if "k \<in> set (map (\<lambda>p. py_str (p_id p)) patients)" for k
    proof -
      from that obtain q where "q \<in> set patients" and "k = py_str (p_id q)" by auto
      with covers [of q] show ?thesis by blast
    qed
    then show ?thesis unfolding run_update by (rule filter_cong [OF refl])
  qed
  let ?T2 = "sync_patients_incremental ?rows1 creds' (Inr patients) faults' ghl'"
  let ?B2 = "sync_patients_body ?rows1 creds' (Inr patients) faults' ghl'"
  have len: "length (fst ?T2) = length ?rows1"
    using body_no_create(1) [OF none] by (simp add: task_fst)
  have counts: "r_created (snd ?T2) = Some 0 \<and> r_updated (snd ?T2) = Some (length ?keys)"
    if s: "r_status (snd ?T2) = ''success''"
  proof (cases "snd ?B2")
    case (Inl e)
    from task_of_raise [OF this] s show ?thesis by simp
  next
    case (Inr r2)
    have c: "r_created r2 = Some 0" by (rule body_no_create(2) [OF none Inr])
    have u: "r_updated r2 = Some (length ?keys)"
    proof (cases "patients = []")
      case True
      with Inr show ?thesis by (auto simp: sync_patients_body_def)
    next
      case False
      from body_success_updated [OF Inr False] upd show ?thesis by simp
    qed
    from task_of_return [OF Inr] c u show ?thesis by simp
  qed
  have part: "py_str (p_id p) \<in> set (contacts_to_update (patient_loop_run patients rows0))"
    if "p \<in> set patients \<and> py_str (p_id p) \<noteq> [] \<and> r0 \<in> set rows0
          \<and> ephysio_patient_id r0 = Some (py_str (p_id p))"
    using that existing_contacts_dom [of r0 rows0 "py_str (p_id p)"]
    by (auto simp: run_update)
  from none upd len counts part show ?thesis by blast
qed

text \<open>
  C4, witness: a table holding one row for patient 7 that came from the CRM, and two
  fetched patients, 42 and 7. The first run creates the row for 42 and updates the row for
  7; the second run creates nothing and updates both.
\<close>

theorem C4_second_run_creates_nothing_witness:
  "distinct (map pk [contact7])
   \<and> r_status (snd (sync_patients_incremental [contact7] creds0 (Inr [patient42, patient7])
          no_faults (ghl_creates ''abc''))) = ''success''
   \<and> r_created (snd (sync_patients_incremental [contact7] creds0 (Inr [patient42, patient7])
          no_faults (ghl_creates ''abc''))) = Some 1
   \<and> r_updated (snd (sync_patients_incremental [contact7] creds0 (Inr [patient42, patient7])
          no_faults (ghl_creates ''abc''))) = Some 1
   \<and> length (fst (sync_patients_incremental [contact7] creds0 (Inr [patient42, patient7])
          no_faults (ghl_creates ''abc''))) = 2
   \<and> contacts_to_create
       (patient_loop_run [patient42, patient7]
          (fst (sync_patients_incremental [contact7] creds0 (Inr [patient42, patient7])
                 no_faults (ghl_creates ''abc'')))) = []
   \<and> contacts_to_update
       (patient_loop_run [patient42, patient7]
          (fst (sync_patients_incremental [contact7] creds0 (Inr [patient42, patient7])
                 no_faults (ghl_creates ''abc'')))) = [''42'', ''7'']
   \<and> length (fst (sync_patients_incremental
                      (fst (sync_patients_incremental [contact7] creds0
                             (Inr [patient42, patient7]) no_faults (ghl_creates ''abc'')))
                      creds0 (Inr [patient42, patient7]) no_faults (ghl_creates ''abc''))) = 2
   \<and> r_status (snd (sync_patients_incremental
                      (fst (sync_patients_incremental [contact7] creds0
                             (Inr [patient42, patient7]) no_faults (ghl_creates ''abc'')))
                      creds0 (Inr [patient42, patient7]) no_faults (ghl_creates ''abc'')))
       = ''success''
   \<and> r_created (snd (sync_patients_incremental
                      (fst (sync_patients_incremental [contact7] creds0
                             (Inr [patient42, patient7]) no_faults (ghl_creates ''abc'')))
                      creds0 (Inr [patient42, patient7]) no_faults (ghl_creates ''abc'')))
       = Some 0
   \<and> r_updated (snd (sync_patients_incremental
                      (fst (sync_patients_incremental [contact7] creds0
                             (Inr [patient42, patient7]) no_faults (ghl_creates ''abc'')))
                      creds0 (Inr [patient42, patient7]) no_faults (ghl_creates ''abc'')))
       = Some 2"
proof -
  have d: "distinct (map pk [contact7])" by simp
  have s1: "r_status (snd (sync_patients_incremental [contact7] creds0
          (Inr [patient42, patient7]) no_faults (ghl_creates ''abc''))) = ''success''"
    by code_simp
  have c1: "r_created (snd (sync_patients_incremental [contact7] creds0
          (Inr [patient42, patient7]) no_faults (ghl_creates ''abc''))) = Some 1"
    by code_simp
  have u1: "r_updated (snd (sync_patients_incremental [contact7] creds0
          (Inr [patient42, patient7]) no_faults (ghl_creates ''abc''))) = Some 1"
    by code_simp
  have l1: "length (fst (sync_patients_incremental [contact7] creds0
          (Inr [patient42, patient7]) no_faults (ghl_creates ''abc''))) = 2"
    by code_simp
  have s2: "r_status (snd (sync_patients_incremental
                      (fst (sync_patients_incremental [contact7] creds0
                             (Inr [patient42, patient7]) no_faults (ghl_creates ''abc'')))
                      creds0 (Inr [patient42, patient7]) no_faults (ghl_creates ''abc'')))
       = ''success''"
    by code_simp
  have k: "filter (\<lambda>k. k \<noteq> []) (map (\<lambda>p. py_str (p_id p)) [patient42, patient7]) = [''42'', ''7'']"
    by code_simp
  from C4_second_run_creates_nothing
         [OF d s1, of creds0 no_faults "ghl_creates ''abc''" patient7 contact7 "[contact7]"]
       d s1 c1 u1 l1 s2 k
  show ?thesis by simp
qed

section \<open>Incremental patient sync: error boundary\<close>

































section \<open>Facts about the AppointmentSync table\<close>

lemma a_extends_keeping_nth:
  "a_extends_keeping rows rows' \<longleftrightarrow>
     length rows \<le> length rows' \<and> (\<forall>i < length rows. a_kept (rows ! i) (rows' ! i))"
  by (auto simp: a_extends_keeping_def list_all2_conv_all_nth)

lemma a_kept_refl: "a_kept r r"
  by (simp add: a_kept_def)

lemma a_kept_trans: "a_kept a b \<Longrightarrow> a_kept b c \<Longrightarrow> a_kept a c"
  by (auto simp: a_kept_def)

lemma a_extends_keeping_refl: "a_extends_keeping rows rows"
  by (simp add: a_extends_keeping_nth a_kept_refl)

lemma a_extends_keeping_trans:
  "a_extends_keeping a b \<Longrightarrow> a_extends_keeping b c \<Longrightarrow> a_extends_keeping a c"
  unfolding a_extends_keeping_nth
  by (meson a_kept_trans le_trans less_le_trans)

lemma a_extends_keeping_map:
  "(\<And>r. r \<in> set rows \<Longrightarrow> a_kept r (g r)) \<Longrightarrow> a_extends_keeping rows (map g rows)"
  by (simp add: a_extends_keeping_nth)

lemma a_extends_keeping_append: "a_extends_keeping rows (rows @ extra)"
  by (simp add: a_extends_keeping_nth nth_append a_kept_refl)

lemma a_bulk_create_appends: "\<exists>extra. bulk_create_appointments cs rows = rows @ extra"
proof (induction cs arbitrary: rows)
  case Nil
  show ?case by simp
next
  case (Cons c cs)
  show ?case
  proof (cases "appointment_conflict c rows")
    case True
    then show ?thesis using Cons.IH [of rows] by simp
  next
    case False
    from Cons.IH [of "rows @ [c\<lparr> a_pk := Some (next_pk (map a_pk rows)) \<rparr>]"]
    obtain extra where
      "bulk_create_appointments cs (rows @ [c\<lparr> a_pk := Some (next_pk (map a_pk rows)) \<rparr>])
         = (rows @ [c\<lparr> a_pk := Some (next_pk (map a_pk rows)) \<rparr>]) @ extra" by blast
    with False show ?thesis by simp
  qed
qed

lemma a_bulk_create_keeps: "a_extends_keeping rows (bulk_create_appointments cs rows)"
  using a_bulk_create_appends [of cs rows] a_extends_keeping_append by metis

lemma a_save_keeps:
  "save_ghl_appointment_id key gid rows = Some rows' \<Longrightarrow> a_extends_keeping rows rows'"
  by (auto simp: save_ghl_appointment_id_def a_kept_def split: if_splits
      intro!: a_extends_keeping_map)

lemma a_ghl_loop_keeps:
  "a_extends_keeping rows (fst (appointments_ghl_loop creds ghl i xs (rows, n, calls)))"
proof (induction xs arbitrary: rows n calls i)
  case Nil
  show ?case by (simp add: a_extends_keeping_refl)
next
  case (Cons x xs)
  show ?case
  proof (cases "truthy (a_ghl_contact_id x)")
    case False
    then show ?thesis using Cons.IH by simp
  next
    case True
    show ?thesis
    proof (cases "extract_id ''appointment'' (fst (create_ghl_appointment creds x (ghl i)))")
      case None
      with True show ?thesis using Cons.IH by simp
    next
      case (Some gid)
      show ?thesis
      proof (cases "save_ghl_appointment_id (a_pk x) gid rows")
        case None
        with True Some show ?thesis using Cons.IH by simp
      next
        case (Some rows')
        have "a_extends_keeping rows
                (fst (appointments_ghl_loop creds ghl (Suc i) xs (rows', Suc n, calls @ [x])))"
          using a_save_keeps [OF Some] Cons.IH a_extends_keeping_trans by blast
        with True Some \<open>extract_id _ _ = Some gid\<close> show ?thesis by simp
      qed
    qed
  qed
qed

lemma a_ghl_loop_calls:
  "set (snd (snd (appointments_ghl_loop creds ghl i xs (rows, n, calls))))
     \<subseteq> set calls \<union> {a \<in> set xs. truthy (a_ghl_contact_id a)}"
proof (induction xs arbitrary: rows n calls i)
  case Nil
  show ?case by simp
next
  case (Cons x xs)
  show ?case
  proof (cases "truthy (a_ghl_contact_id x)")
    case False
    have "set (snd (snd (appointments_ghl_loop creds ghl (Suc i) xs (rows, n, calls))))
        \<subseteq> set calls \<union> {a \<in> set xs. truthy (a_ghl_contact_id a)}"
      by (rule Cons.IH)
    with False show ?thesis by auto
  next
    case True
    have "\<exists>rows' n'. appointments_ghl_loop creds ghl i (x # xs) (rows, n, calls)
        = appointments_ghl_loop creds ghl (Suc i) xs (rows', n', calls @ [x])"
      using True by (auto split: option.splits)
    then obtain rows' n' where eq: "appointments_ghl_loop creds ghl i (x # xs) (rows, n, calls)
        = appointments_ghl_loop creds ghl (Suc i) xs (rows', n', calls @ [x])" by blast
    have "set (snd (snd (appointments_ghl_loop creds ghl (Suc i) xs (rows', n', calls @ [x]))))
        \<subseteq> set (calls @ [x]) \<union> {a \<in> set xs. truthy (a_ghl_contact_id a)}"
      by (rule Cons.IH)
    with True show ?thesis unfolding eq by auto
  qed
qed

section \<open>Facts about the appointment loop\<close>

lemma existing_appointments_SomeD:
  "existing_appointments rows k = Some c \<Longrightarrow> c \<in> set rows \<and> ephysio_appointment_id c = Some k"
proof -
  assume "existing_appointments rows k = Some c"
  then have "(k, c) \<in> set (List.map_filter (\<lambda>c. map_option (\<lambda>k. (k, c)) (ephysio_appointment_id c)) rows)"
    unfolding existing_appointments_def by (auto dest: map_of_SomeD)
  then show ?thesis by (auto simp: List.map_filter_def)
qed

lemma existing_appointments_dom:
  "r \<in> set rows \<Longrightarrow> ephysio_appointment_id r = Some k \<Longrightarrow> k \<in> dom (existing_appointments rows)"
proof -
  assume r: "r \<in> set rows" and k: "ephysio_appointment_id r = Some k"
  then have "(k, r) \<in> set (List.map_filter (\<lambda>c. map_option (\<lambda>k. (k, c)) (ephysio_appointment_id c)) rows)"
    by (force simp: List.map_filter_def)
  then have "k \<in> fst ` set (rev (List.map_filter (\<lambda>c. map_option (\<lambda>k. (k, c)) (ephysio_appointment_id c)) rows))"
    by force
  then show ?thesis unfolding existing_appointments_def by (simp add: dom_map_of_conv_image_fst)
qed

lemma a_kept_update: "a_kept obj (update_from_event ev s e pid gid obj)"
  by (simp add: a_kept_def update_from_event_def)

lemma a_upsert_existing:
  "existing_a (appointment_upsert contacts ev aid pid s e st) k = Some obj \<Longrightarrow>
   existing_a st k = Some obj
   \<or> (\<exists>old gid. existing_a st k = Some old \<and> obj = update_from_event ev s e pid gid old)"
  by (auto simp: appointment_upsert_def Let_def split: option.splits if_splits)

lemma a_step_cases:
  "appointment_step contacts ev st = Inr st' \<Longrightarrow>
   st' = st
   \<or> (\<exists>s e. epoch_ms_to_datetime (ev_start ev) = Inr (Some s)
            \<and> epoch_ms_to_datetime (ev_end ev) = Inr (Some e)
            \<and> py_str (ev_id ev) \<noteq> [] \<and> py_str (ev_patientId ev) \<noteq> []
            \<and> st' = appointment_upsert contacts ev (py_str (ev_id ev))
                      (py_str (ev_patientId ev)) s e st)"
  by (auto simp: appointment_step_def Let_def split: sum.splits option.splits if_splits)

lemma a_step_origin:
  assumes "\<And>k obj. existing_a st k = Some obj \<Longrightarrow> \<exists>row \<in> set rows. a_kept row obj"
    and "appointment_step contacts ev st = Inr st'"
    and "existing_a st' k = Some obj"
  shows "\<exists>row \<in> set rows. a_kept row obj"
proof -
  from a_step_cases [OF assms(2)] show ?thesis
  proof
    assume "st' = st"
    with assms(1,3) show ?thesis by blast
  next
    assume "\<exists>s e. epoch_ms_to_datetime (ev_start ev) = Inr (Some s)
            \<and> epoch_ms_to_datetime (ev_end ev) = Inr (Some e)
            \<and> py_str (ev_id ev) \<noteq> [] \<and> py_str (ev_patientId ev) \<noteq> []
            \<and> st' = appointment_upsert contacts ev (py_str (ev_id ev))
                      (py_str (ev_patientId ev)) s e st"
    then obtain s e where "st' = appointment_upsert contacts ev (py_str (ev_id ev))
                      (py_str (ev_patientId ev)) s e st" by blast
    with assms(3) a_upsert_existing
    have "existing_a st k = Some obj
       \<or> (\<exists>old gid. existing_a st k = Some old
             \<and> obj = update_from_event ev s e (py_str (ev_patientId ev)) gid old)"
      by blast
    then show ?thesis using assms(1) a_kept_update a_kept_trans by blast
  qed
qed

lemma a_loop_origin:
  "(\<And>k obj. existing_a st k = Some obj \<Longrightarrow> \<exists>row \<in> set rows. a_kept row obj) \<Longrightarrow>
   appointment_loop_from contacts evs st = Inr st' \<Longrightarrow>
   existing_a st' k = Some obj \<Longrightarrow>
   \<exists>row \<in> set rows. a_kept row obj"
proof (induction evs arbitrary: st)
  case Nil
  then show ?case by simp
next
  case (Cons ev evs)
  from Cons.prems(2) obtain st1 where s1: "appointment_step contacts ev st = Inr st1"
    and rest: "appointment_loop_from contacts evs st1 = Inr st'"
    by (auto split: sum.splits)
  show ?case
  proof (rule Cons.IH [of st1])
    fix k' obj' assume "existing_a st1 k' = Some obj'"
    then show "\<exists>row \<in> set rows. a_kept row obj'"
      using a_step_origin [of st rows contacts ev st1 k' obj'] Cons.prems(1) s1 by blast
  next
    show "appointment_loop_from contacts evs st1 = Inr st'" by (rule rest)
  next
    show "existing_a st' k = Some obj" by (rule Cons.prems(3))
  qed
qed

lemma a_run_origin:
  assumes "appointment_loop_run contacts evs rows = Inr st"
    and "existing_a st k = Some obj"
  shows "\<exists>row \<in> set rows. a_kept row obj"
proof -
  let ?st0 = "\<lparr> existing_a = existing_appointments rows, appointments_to_create = [],
         appointments_to_update = [], appointments_to_sync_to_ghl = [] \<rparr>"
  have init: "\<exists>row \<in> set rows. a_kept row obj'" if "existing_a ?st0 k' = Some obj'" for k' obj'
    using that existing_appointments_SomeD [of rows k' obj'] a_kept_refl [of obj'] by auto
  have run: "appointment_loop_from contacts evs ?st0 = Inr st"
    using assms(1) by (simp add: appointment_loop_run_def)
  show ?thesis
    by (rule a_loop_origin [of ?st0 rows contacts evs st k obj, OF init run assms(2)])
qed

lemma a_bulk_update_keeps:
  assumes "distinct (map a_pk rows)"
    and "\<And>obj. obj \<in> set objs \<Longrightarrow> \<exists>row \<in> set rows. a_kept row obj"
  shows "a_extends_keeping rows (bulk_update_appointments objs rows)"
  unfolding bulk_update_appointments_def
proof (rule a_extends_keeping_map)
  fix r assume r: "r \<in> set rows"
  show "a_kept r (case find (\<lambda>obj. a_pk obj = a_pk r) objs of
                   None \<Rightarrow> r
                 | Some obj \<Rightarrow>
                     r\<lparr> start_time := start_time obj, end_time := end_time obj,
                          status := status obj, event_type_id := event_type_id obj,
                          a_user_id := a_user_id obj, client_id := client_id obj,
                          admin_info_id := admin_info_id obj,
                          a_ephysio_patient_id := a_ephysio_patient_id obj,
                          a_ghl_contact_id := a_ghl_contact_id obj,
                          a_source := a_source obj \<rparr>)"
  proof (cases "find (\<lambda>obj. a_pk obj = a_pk r) objs")
    case None
    then show ?thesis by (simp add: a_kept_refl)
  next
    case (Some obj)
    then have o: "obj \<in> set objs" and p: "a_pk obj = a_pk r"
      by (auto simp: find_Some_iff)
    from assms(2) [OF o] obtain row where row: "row \<in> set rows" and k: "a_kept row obj" by blast
    from k p have "a_pk row = a_pk r" by (simp add: a_kept_def)
    with assms(1) row r have "row = r"
      by (meson distinct_map inj_onD)
    with k have "a_kept r obj" by simp
    with Some show ?thesis by (simp add: a_kept_def)
  qed
qed

lemma a_run_update_objs:
  assumes "appointment_loop_run contacts evs rows = Inr st"
    and "obj \<in> set (List.map_filter (existing_a st) ks)"
  shows "\<exists>row \<in> set rows. a_kept row obj"
  using assms(2) a_run_origin [OF assms(1)] by (auto simp: List.map_filter_def)

lemma a_persist_keeps:
  assumes "distinct (map a_pk rows)"
    and run: "appointment_loop_run contacts evs rows = Inr st"
  shows "a_extends_keeping rows (fst (persist_appointments rows faults st))"
proof -
  let ?objs = "List.map_filter (existing_a st) (appointments_to_update st)"
  have u: "a_extends_keeping rows (bulk_update_appointments ?objs rows)"
    by (rule a_bulk_update_keeps [OF assms(1)]) (rule a_run_update_objs [OF run])
  have c: "a_extends_keeping rows (bulk_create_appointments cs (bulk_update_appointments ?objs rows))"
    for cs by (rule a_extends_keeping_trans [OF u a_bulk_create_keeps])
  show ?thesis
  proof (cases "?objs = []")
    case True
    then show ?thesis
      by (simp add: persist_appointments_def Let_def a_extends_keeping_refl a_bulk_create_keeps)
  next
    case False
    then show ?thesis
      by (simp add: persist_appointments_def Let_def a_extends_keeping_refl u c)
  qed
qed

lemma a_dispatch_keeps:
  "a_extends_keeping rows2 (fst (dispatch_appointments creds ghl faults st rows2))"
  unfolding dispatch_appointments_def Let_def
  by (simp add: a_ghl_loop_keeps a_extends_keeping_refl)

lemma a_body_inr_cases:
  "fst (sync_appointments_body rows contacts creds (Inr evs) faults ghl) = rows
   \<or> (\<exists>st. appointment_loop_run contacts evs rows = Inr st
        \<and> (fst (sync_appointments_body rows contacts creds (Inr evs) faults ghl)
              = fst (persist_appointments rows faults st)
           \<or> fst (sync_appointments_body rows contacts creds (Inr evs) faults ghl)
              = fst (dispatch_appointments creds ghl faults st
                      (fst (persist_appointments rows faults st)))))"
proof (cases "evs = [] \<or> query_error faults \<noteq> None")
  case True
  then show ?thesis by (auto simp: sync_appointments_body_def)
next
  case False
  show ?thesis
  proof (cases "appointment_loop_run contacts evs rows")
    case (Inl e)
    with False show ?thesis by (auto simp: sync_appointments_body_def)
  next
    case run: (Inr st)
    obtain rows1 x where p: "persist_appointments rows faults st = (rows1, x)"
      by (cases "persist_appointments rows faults st")
    show ?thesis
    proof (cases x)
      case (Inl e)
      with False run p show ?thesis by (auto simp: sync_appointments_body_def)
    next
      case (Inr cu)
      obtain c u where cu: "cu = (c, u)" by (cases cu)
      obtain rows3 calls n where d: "dispatch_appointments creds ghl faults st rows1 = (rows3, calls, n)"
        by (cases "dispatch_appointments creds ghl faults st rows1") auto
      from False run p Inr cu d show ?thesis
        by (auto simp: sync_appointments_body_def split: sum.splits)
    qed
  qed
qed

lemma a_body_keeps:
  assumes "distinct (map a_pk rows)"
  shows "a_extends_keeping rows (fst (sync_appointments_body rows contacts creds fetch faults ghl))"
proof (cases fetch)
  case (Inl e)
  then show ?thesis by (simp add: sync_appointments_body_def a_extends_keeping_refl)
next
  case (Inr evs)
  from a_body_inr_cases [of rows contacts creds evs faults ghl] show ?thesis
  proof
    assume "fst (sync_appointments_body rows contacts creds (Inr evs) faults ghl) = rows"
    with Inr show ?thesis by (simp add: a_extends_keeping_refl)
  next
    assume "\<exists>st. appointment_loop_run contacts evs rows = Inr st
        \<and> (fst (sync_appointments_body rows contacts creds (Inr evs) faults ghl)
              = fst (persist_appointments rows faults st)
           \<or> fst (sync_appointments_body rows contacts creds (Inr evs) faults ghl)
              = fst (dispatch_appointments creds ghl faults st
                      (fst (persist_appointments rows faults st))))"
    then obtain st where run: "appointment_loop_run contacts evs rows = Inr st"
      and c: "fst (sync_appointments_body rows contacts creds (Inr evs) faults ghl)
              = fst (persist_appointments rows faults st)
           \<or> fst (sync_appointments_body rows contacts creds (Inr evs) faults ghl)
              = fst (dispatch_appointments creds ghl faults st
                      (fst (persist_appointments rows faults st)))" by blast
    have a: "a_extends_keeping rows (fst (persist_appointments rows faults st))"
      by (rule a_persist_keeps [OF assms run])
    have b: "a_extends_keeping rows
               (fst (dispatch_appointments creds ghl faults st
                      (fst (persist_appointments rows faults st))))"
      by (rule a_extends_keeping_trans [OF a a_dispatch_keeps])
    from c a b Inr show ?thesis by auto
  qed
qed

lemma a_task_fst:
  "fst (sync_appointments_incremental rows contacts creds fetch faults ghl)
     = fst (sync_appointments_body rows contacts creds fetch faults ghl)"
  by (auto simp: sync_appointments_incremental_def split: prod.splits sum.splits)

lemma a_task_calls:
  "fst (snd (sync_appointments_incremental rows contacts creds fetch faults ghl))
     = fst (snd (sync_appointments_body rows contacts creds fetch faults ghl))"
  by (auto simp: sync_appointments_incremental_def split: prod.splits sum.splits)

section \<open>Provenance of the rows\<close>

text \<open>
  C10. The update branches of both sync tasks leave a source that is set as it is and
  mark only an empty source as \<open>ephysio\<close>. Over a whole cycle of either task, whatever
  the fetch returns and whichever step fails, every row of the table is still there
  under its primary key with the source it had, if it had one: a row marked \<open>ghl\<close> is
  still marked \<open>ghl\<close>, and a row that reads \<open>ephysio\<close> afterwards was empty or \<open>ephysio\<close>
  before. Primary keys are taken to be distinct.
\<close>

theorem C10_source_preserved:
  "source (update_from_patient patient contact)
     = (if source contact = [] then ''ephysio'' else source contact)
   \<and> a_source (update_from_event ev s e pid gid appt_sync)
     = (if a_source appt_sync = [] then ''ephysio'' else a_source appt_sync)
   \<and> (distinct (map pk rows) \<and> i < length rows \<longrightarrow>
      i < length (fst (sync_patients_incremental rows creds fetch faults ghl))
      \<and> pk (fst (sync_patients_incremental rows creds fetch faults ghl) ! i) = pk (rows ! i)
      \<and> (source (rows ! i) \<noteq> [] \<longrightarrow>
           source (fst (sync_patients_incremental rows creds fetch faults ghl) ! i)
             = source (rows ! i))
      \<and> (source (rows ! i) = ''ghl'' \<longrightarrow>
           source (fst (sync_patients_incremental rows creds fetch faults ghl) ! i) = ''ghl'')
      \<and> (source (fst (sync_patients_incremental rows creds fetch faults ghl) ! i) = ''ephysio''
           \<longrightarrow> source (rows ! i) = [] \<or> source (rows ! i) = ''ephysio''))
   \<and> (distinct (map a_pk arows) \<and> j < length arows \<longrightarrow>
      j < length (fst (sync_appointments_incremental arows contacts creds' fetch' faults' ghl'))
      \<and> a_pk (fst (sync_appointments_incremental arows contacts creds' fetch' faults' ghl') ! j)
          = a_pk (arows ! j)
      \<and> (a_source (arows ! j) \<noteq> [] \<longrightarrow>
           a_source (fst (sync_appointments_incremental arows contacts creds' fetch' faults' ghl')
                       ! j) = a_source (arows ! j))
      \<and> (a_source (arows ! j) = ''ghl'' \<longrightarrow>
           a_source (fst (sync_appointments_incremental arows contacts creds' fetch' faults' ghl')
                       ! j) = ''ghl'')
      \<and> (a_source (fst (sync_appointments_incremental arows contacts creds' fetch' faults' ghl')
                      ! j) = ''ephysio''
           \<longrightarrow> a_source (arows ! j) = [] \<or> a_source (arows ! j) = ''ephysio''))"
proof (intro conjI)
  show "source (update_from_patient patient contact)
     = (if source contact = [] then ''ephysio'' else source contact)"
    by (simp add: update_from_patient_def)
next
  show "a_source (update_from_event ev s e pid gid appt_sync)
     = (if a_source appt_sync = [] then ''ephysio'' else a_source appt_sync)"
    by (simp add: update_from_event_def)
next
  let ?rows' = "fst (sync_patients_incremental rows creds fetch faults ghl)"
  show "distinct (map pk rows) \<and> i < length rows \<longrightarrow>
      i < length ?rows' \<and> pk (?rows' ! i) = pk (rows ! i)
      \<and> (source (rows ! i) \<noteq> [] \<longrightarrow> source (?rows' ! i) = source (rows ! i))
      \<and> (source (rows ! i) = ''ghl'' \<longrightarrow> source (?rows' ! i) = ''ghl'')
      \<and> (source (?rows' ! i) = ''ephysio''
           \<longrightarrow> source (rows ! i) = [] \<or> source (rows ! i) = ''ephysio'')"
  proof
    assume h: "distinct (map pk rows) \<and> i < length rows"
    then have "extends_keeping rows ?rows'"
      by (simp add: task_fst body_keeps)
    with h have "i < length ?rows'" and "kept (rows ! i) (?rows' ! i)"
      by (auto simp: extends_keeping_nth)
    then show "i < length ?rows' \<and> pk (?rows' ! i) = pk (rows ! i)
      \<and> (source (rows ! i) \<noteq> [] \<longrightarrow> source (?rows' ! i) = source (rows ! i))
      \<and> (source (rows ! i) = ''ghl'' \<longrightarrow> source (?rows' ! i) = ''ghl'')
      \<and> (source (?rows' ! i) = ''ephysio''
           \<longrightarrow> source (rows ! i) = [] \<or> source (rows ! i) = ''ephysio'')"
      by (auto simp: kept_def)
  qed
next
  let ?rows' = "fst (sync_appointments_incremental arows contacts creds' fetch' faults' ghl')"
  show "distinct (map a_pk arows) \<and> j < length arows \<longrightarrow>
      j < length ?rows' \<and> a_pk (?rows' ! j) = a_pk (arows ! j)
      \<and> (a_source (arows ! j) \<noteq> [] \<longrightarrow> a_source (?rows' ! j) = a_source (arows ! j))
      \<and> (a_source (arows ! j) = ''ghl'' \<longrightarrow> a_source (?rows' ! j) = ''ghl'')
      \<and> (a_source (?rows' ! j) = ''ephysio''
           \<longrightarrow> a_source (arows ! j) = [] \<or> a_source (arows ! j) = ''ephysio'')"
  proof
    assume h: "distinct (map a_pk arows) \<and> j < length arows"
    then have "a_extends_keeping arows ?rows'"
      by (simp add: a_task_fst a_body_keeps)
    with h have "j < length ?rows'" and "a_kept (arows ! j) (?rows' ! j)"
      by (auto simp: a_extends_keeping_nth)
    then show "j < length ?rows' \<and> a_pk (?rows' ! j) = a_pk (arows ! j)
      \<and> (a_source (arows ! j) \<noteq> [] \<longrightarrow> a_source (?rows' ! j) = a_source (arows ! j))
      \<and> (a_source (arows ! j) = ''ghl'' \<longrightarrow> a_source (?rows' ! j) = ''ghl'')
      \<and> (a_source (?rows' ! j) = ''ephysio''
           \<longrightarrow> a_source (arows ! j) = [] \<or> a_source (arows ! j) = ''ephysio'')"
      by (auto simp: a_kept_def)
  qed
qed

text \<open>
  C10, witness: a contact and an appointment that a CRM webhook created, both matched by
  the fetch and rewritten by the update branch, keep the source \<open>ghl\<close>.
\<close>

theorem C10_source_preserved_witness:
  "source (update_from_patient patient42 ((contact42 None)\<lparr>source := ''ghl''\<rparr>)) = ''ghl''
   \<and> a_source (update_from_event event7 1758911400000 1758915000000 ''42'' None
                 (appt0\<lparr>a_source := ''ghl''\<rparr>)) = ''ghl''
   \<and> source (fst (sync_patients_incremental [(contact42 None)\<lparr>source := ''ghl''\<rparr>] creds0
                    (Inr [patient42]) no_faults (ghl_creates ''abc'')) ! 0) = ''ghl''
   \<and> first_name (fst (sync_patients_incremental [(contact42 None)\<lparr>source := ''ghl''\<rparr>] creds0
                    (Inr [patient42]) no_faults (ghl_creates ''abc'')) ! 0) = Some ''Ada''
   \<and> a_source (fst (sync_appointments_incremental [appt0\<lparr>a_source := ''ghl''\<rparr>]
                      [contact42 None] creds0 (Inr [event7]) no_faults (ghl_books ''g1'')) ! 0)
       = ''ghl''
   \<and> a_ghl_contact_id (appt0\<lparr>a_source := ''ghl''\<rparr>) = Some ''abc''
   \<and> a_ghl_contact_id (fst (sync_appointments_incremental [appt0\<lparr>a_source := ''ghl''\<rparr>]
                      [contact42 None] creds0 (Inr [event7]) no_faults (ghl_books ''g1'')) ! 0)
       = None"
proof -
  have h1: "distinct (map pk [(contact42 None)\<lparr>source := ''ghl''\<rparr>])
      \<and> 0 < length [(contact42 None)\<lparr>source := ''ghl''\<rparr>]
      \<and> source ([(contact42 None)\<lparr>source := ''ghl''\<rparr>] ! 0) = ''ghl''
      \<and> source ((contact42 None)\<lparr>source := ''ghl''\<rparr>) \<noteq> []"
    by simp
  have h2: "distinct (map a_pk [appt0\<lparr>a_source := ''ghl''\<rparr>])
      \<and> 0 < length [appt0\<lparr>a_source := ''ghl''\<rparr>]
      \<and> a_source ([appt0\<lparr>a_source := ''ghl''\<rparr>] ! 0) = ''ghl''
      \<and> a_source (appt0\<lparr>a_source := ''ghl''\<rparr>) \<noteq> []"
    by simp
  have u1: "first_name (fst (sync_patients_incremental [(contact42 None)\<lparr>source := ''ghl''\<rparr>] creds0
                    (Inr [patient42]) no_faults (ghl_creates ''abc'')) ! 0) = Some ''Ada''"
    by code_simp
  have u2: "a_ghl_contact_id (appt0\<lparr>a_source := ''ghl''\<rparr>) = Some ''abc''
      \<and> a_ghl_contact_id (fst (sync_appointments_incremental [appt0\<lparr>a_source := ''ghl''\<rparr>]
                      [contact42 None] creds0 (Inr [event7]) no_faults (ghl_books ''g1'')) ! 0)
       = None"
    by code_simp
  from C10_source_preserved
         [where patient = patient42 and contact = "(contact42 None)\<lparr>source := ''ghl''\<rparr>"
            and ev = event7 and s = 1758911400000 and e = 1758915000000 and pid = "''42''"
            and gid = None and appt_sync = "appt0\<lparr>a_source := ''ghl''\<rparr>"
            and rows = "[(contact42 None)\<lparr>source := ''ghl''\<rparr>]" and i = 0 and creds = creds0
            and fetch = "Inr [patient42]" and faults = no_faults and ghl = "ghl_creates ''abc''"
            and arows = "[appt0\<lparr>a_source := ''ghl''\<rparr>]" and j = 0
            and contacts = "[contact42 None]" and creds' = creds0 and fetch' = "Inr [event7]"
            and faults' = no_faults and ghl' = "ghl_books ''g1''"]
       h1 h2 u1 u2
  show ?thesis by simp
qed

end
